theory Spec2Isabelle
  imports Main "HOL-Library.Log_Nat" "HOL-Library.Multiset" "HOL-Library.Product_Lexorder"
begin

section \<open>Python values shared by the modules\<close>

text \<open>
  Exceptions are values: every \<open>raise\<close> of the source is an \<open>Inl\<close> of the result.
  \<open>RuntimeError\<close> carries the fixed part of its message, which tells the two places
  that raise it apart. \<open>Diverges\<close> stands for a loop of the source that would not return.
\<close>

datatype py_error =
    ValueError
  | RuntimeError string
  | TypeError
  | FileNotFoundError
  | PermissionError
  | Diverges

subsection \<open>Python floats\<close>

text \<open>
  A finite Python float is an IEEE binary64 number; it is represented by the rational it
  denotes. \<open>fl\<close> rounds a rational to the nearest number with a 53-bit significand, ties
  to even, which is how every float operation of CPython rounds its exact result.
  Overflow to infinity, subnormal numbers and NaN are outside the model.
\<close>

type_synonym pyfloat = rat

definition round_half_even :: "rat \<Rightarrow> int" where
  "round_half_even r =
     (let f = \<lfloor>r\<rfloor>; d = r - of_int f
      in if d < 1 / 2 then f else if 1 / 2 < d then f + 1 else if even f then f else f + 1)"

text \<open>For \<open>0 < x\<close>, \<open>binexp x\<close> is the exponent \<open>e\<close> with \<open>2^52 \<le> x / 2^e < 2^53\<close>.\<close>

definition binexp :: "rat \<Rightarrow> int" where
  "binexp x =
     (let (p, q) = quotient_of x; k = bitlen p - bitlen q
      in if x < 2 powi k then k - 53 else k - 52)"

definition fl :: "rat \<Rightarrow> pyfloat" where
  "fl x =
     (if x = 0 then 0
      else let a = \<bar>x\<bar>; e = binexp a
           in sgn x * of_int (round_half_even (a / 2 powi e)) * 2 powi e)"

definition fadd :: "pyfloat \<Rightarrow> pyfloat \<Rightarrow> pyfloat" where
  "fadd a b = fl (a + b)"

definition fsub :: "pyfloat \<Rightarrow> pyfloat \<Rightarrow> pyfloat" where
  "fsub a b = fl (a - b)"

definition fmul :: "pyfloat \<Rightarrow> pyfloat \<Rightarrow> pyfloat" where
  "fmul a b = fl (a * b)"

text \<open>True division; the callers below never pass a zero divisor.\<close>

definition fdiv :: "pyfloat \<Rightarrow> pyfloat \<Rightarrow> pyfloat" where
  "fdiv a b = fl (a / b)"

text \<open>\<open>float(n)\<close> for an integer \<open>n\<close>.\<close>

definition float_of_int :: "int \<Rightarrow> pyfloat" where
  "float_of_int n = fl (of_int n)"

text \<open>\<open>int(x)\<close> for a float \<open>x\<close>: truncation towards zero.\<close>

definition int_of_float :: "pyfloat \<Rightarrow> int" where
  "int_of_float x = (if 0 \<le> x then \<lfloor>x\<rfloor> else \<lceil>x\<rceil>)"

text \<open>
  \<open>round(x, 1)\<close>: CPython rounds the exact value of \<open>x\<close> to one decimal, ties to even,
  and converts the decimal back to the nearest float.
\<close>

definition py_round1 :: "pyfloat \<Rightarrow> pyfloat" where
  "py_round1 x = fl (of_int (round_half_even (x * 10)) / 10)"

section \<open>game/performance\_calculator.py\<close>

definition calculate_wpm :: "'c list \<Rightarrow> pyfloat \<Rightarrow> pyfloat" where
  "calculate_wpm typed_text time_elapsed_seconds =
     (if time_elapsed_seconds \<le> 0 then 0
      else let total_characters = int (length typed_text);
               time_minutes = fdiv time_elapsed_seconds 60;
               wpm = fdiv (fdiv (float_of_int total_characters) 5) time_minutes
           in py_round1 wpm)"

text \<open>The body of \<open>for i in range(comparison_length)\<close>, folded over the indices.\<close>

definition count_correct :: "'c list \<Rightarrow> 'c list \<Rightarrow> nat \<Rightarrow> nat" where
  "count_correct typed_text target_text comparison_length =
     fold (\<lambda>i correct_characters.
             if typed_text ! i = target_text ! i then correct_characters + 1
             else correct_characters)
          [0 ..< comparison_length] 0"

definition calculate_accuracy :: "'c list \<Rightarrow> 'c list \<Rightarrow> pyfloat" where
  "calculate_accuracy typed_text target_text =
     (if typed_text = [] then 0
      else let comparison_length = min (length typed_text) (length target_text);
               correct_characters = count_correct typed_text target_text comparison_length;
               accuracy = fmul (fdiv (of_nat correct_characters) (of_nat (length typed_text))) 100
           in py_round1 accuracy)"

subsection \<open>The metrics as the specification words them\<close>




section \<open>models/difficulty.py\<close>

datatype difficulty = SIMPLE | MEDIUM | HARD | EXTRA_HARD

text \<open>\<open>for difficulty in Difficulty\<close> visits the members in definition order.\<close>

definition all_difficulties :: "difficulty list" where
  "all_difficulties = [SIMPLE, MEDIUM, HARD, EXTRA_HARD]"

section \<open>game/word\_source\_loader.py\<close>

subsection \<open>Strings\<close>

text \<open>
  A Python string is a list of characters; the model covers the code points below 256.
  \<open>py_isspace\<close> lists the code points of that range for which \<open>str.isspace\<close> holds:
  they are what \<open>str.strip()\<close> removes and where \<open>str.split()\<close> cuts.
\<close>

definition py_isspace :: "char \<Rightarrow> bool" where
  "py_isspace c = (of_char c \<in> {9, 10, 11, 12, 13, 28, 29, 30, 31, 32, 133, 160 :: nat})"

definition py_strip :: "string \<Rightarrow> string" where
  "py_strip s = rev (dropWhile py_isspace (rev (dropWhile py_isspace s)))"

text \<open>\<open>s.split()\<close>: the maximal runs of non-space characters; \<open>cur\<close> is the run being read.\<close>

fun split_from :: "string \<Rightarrow> string \<Rightarrow> string list" where
  "split_from cur [] = (if cur = [] then [] else [cur])"
| "split_from cur (c # cs) =
     (if py_isspace c then (if cur = [] then split_from [] cs else cur # split_from [] cs)
      else split_from (cur @ [c]) cs)"

definition py_split :: "string \<Rightarrow> string list" where
  "py_split s = split_from [] s"

definition startswith_hash :: "string \<Rightarrow> bool" where
  "startswith_hash s = (case s of [] \<Rightarrow> False | c # _ \<Rightarrow> c = CHR ''#'')"

subsection \<open>Files\<close>

text \<open>
  The interpreter's \<open>open\<close> and its codecs are not code of the repository. A file is
  given by what reading it under an encoding does: the lines it hands to the loop body,
  in order, and how the read ends. \<open>open\<close> failing is an ending with no line read.
  A text file is decoded block by block, so a file with an undecodable byte late in it
  yields the lines of its first blocks before \<open>UnicodeDecodeError\<close> is raised.
\<close>

datatype encoding = UTF_8 | UTF_8_SIG | LATIN_1 | CP1252

datatype read_end =
    EndOfFile
  | UnicodeDecodeError
  | PermissionDenied
  | OtherException

type_synonym word_file = "encoding \<Rightarrow> string list \<times> read_end"

text \<open>A path that is not in the map does not exist (\<open>os.path.exists\<close> is false).\<close>

type_synonym filesystem = "string \<rightharpoonup> word_file"

subsection \<open>load\_file\<close>

text \<open>The body of the loop over the lines: \<open>words\<close> is the list being appended to.\<close>

definition read_line :: "bool \<Rightarrow> string \<Rightarrow> string list \<Rightarrow> string list" where
  "read_line allow_phrases raw words =
     (let line = py_strip raw
      in if line = [] \<or> startswith_hash line then words
         else if allow_phrases then words @ [line]
         else if CHR '' '' \<in> set line
              then words @ map py_strip (filter (\<lambda>word. py_strip word \<noteq> []) (py_split line))
              else words @ [line])"

text \<open>
  The loop over \<open>encodings_to_try\<close>. \<open>words\<close> is created once, before the loop, and is
  carried from one attempt into the next.
\<close>

fun try_encodings :: "word_file \<Rightarrow> bool \<Rightarrow> encoding list \<Rightarrow> string list \<Rightarrow> py_error + string list" where
  "try_encodings f allow_phrases [] words = Inl ValueError"
| "try_encodings f allow_phrases (enc # encs) words =
     (case f enc of (lines, ending) \<Rightarrow>
        (let words' = fold (read_line allow_phrases) lines words
         in case ending of
              EndOfFile \<Rightarrow> Inr words'
            | UnicodeDecodeError \<Rightarrow> try_encodings f allow_phrases encs words'
            | PermissionDenied \<Rightarrow> Inl PermissionError
            | OtherException \<Rightarrow> try_encodings f allow_phrases encs words'))"

definition encodings_to_try :: "encoding list" where
  "encodings_to_try = [UTF_8, UTF_8_SIG, LATIN_1, CP1252]"

definition load_file :: "filesystem \<Rightarrow> string \<Rightarrow> bool \<Rightarrow> py_error + string list" where
  "load_file fs filepath allow_phrases =
     (case fs filepath of
        None \<Rightarrow> Inl FileNotFoundError
      | Some f \<Rightarrow> try_encodings f allow_phrases encodings_to_try [])"

subsection \<open>What the specification says load\_file returns\<close>

text \<open>The entries of the lines of one complete read.\<close>

definition parse_lines :: "bool \<Rightarrow> string list \<Rightarrow> string list" where
  "parse_lines allow_phrases lines = fold (read_line allow_phrases) lines []"

text \<open>The lines of the file under the first encoding that reads it to its end.\<close>

fun first_decoding :: "word_file \<Rightarrow> encoding list \<Rightarrow> string list option" where
  "first_decoding f [] = None"
| "first_decoding f (enc # encs) =
     (case f enc of (lines, ending) \<Rightarrow>
        if ending = EndOfFile then Some lines else first_decoding f encs)"

subsection \<open>get\_words\_for\_difficulty\<close>

definition file_mappings :: "difficulty \<rightharpoonup> string" where
  "file_mappings =
     [SIMPLE \<mapsto> ''simple_words_large.txt'',
      MEDIUM \<mapsto> ''medium_unique_words.txt'',
      HARD \<mapsto> ''hard_words_expanded.txt'',
      EXTRA_HARD \<mapsto> ''extra_hard_words_extended.txt'']"

definition base_words :: "string list" where
  "base_words =
     [''the'', ''and'', ''for'', ''are'', ''but'', ''not'', ''you'', ''all'', ''can'', ''had'',
      ''her'', ''was'', ''one'', ''our'', ''out'', ''day'', ''get'', ''has'', ''him'', ''his'',
      ''how'', ''man'', ''new'', ''now'', ''old'', ''see'', ''two'', ''way'', ''who'', ''boy'']"

definition medium_words :: "string list" where
  "medium_words =
     [''about'', ''after'', ''again'', ''before'', ''being'', ''below'', ''could'', ''every'',
      ''first'', ''found'', ''great'', ''group'', ''hand'', ''head'', ''help'', ''here'']"

definition hard_words :: "string list" where
  "hard_words =
     [''ability'', ''absence'', ''academy'', ''account'', ''achieve'', ''acquire'', ''address'',
      ''advance'', ''against'', ''already'', ''another'', ''anxiety'', ''anybody'', ''anymore'',
      ''anywhere'', ''approve'', ''arrange'', ''article'', ''attempt'', ''attract'', ''average'']"

definition extra_hard_words :: "string list" where
  "extra_hard_words =
     [''absolutely'', ''accelerate'', ''accessible'', ''accomplish'', ''accordance'', ''accumulate'',
      ''achievement'', ''acknowledge'', ''additional'', ''administration'', ''advantage'', ''adventure'',
      ''advertising'', ''afternoon'', ''aggressive'', ''algorithm'', ''alternative'', ''ambassador'',
      ''anniversary'', ''announcement'', ''application'', ''appointment'', ''appreciate'', ''appropriate'']"

fun get_fallback_words :: "difficulty \<Rightarrow> string list" where
  "get_fallback_words SIMPLE = base_words"
| "get_fallback_words MEDIUM = base_words @ medium_words"
| "get_fallback_words HARD = base_words @ medium_words @ hard_words"
| "get_fallback_words EXTRA_HARD = base_words @ medium_words @ hard_words @ extra_hard_words"

text \<open>
  The loop over \<open>possible_paths\<close>: \<open>FileNotFoundError\<close> moves on to the next path, any
  other outcome of \<open>load_file\<close> ends the loop. \<open>None\<close>: no path had a file.
\<close>

fun try_paths :: "filesystem \<Rightarrow> string list \<Rightarrow> (py_error + string list) option" where
  "try_paths fs [] = None"
| "try_paths fs (filepath # rest) =
     (case load_file fs filepath True of
        Inl e \<Rightarrow> if e = FileNotFoundError then try_paths fs rest else Some (Inl e)
      | Inr words \<Rightarrow> Some (Inr words))"

definition possible_paths :: "string \<Rightarrow> string list" where
  "possible_paths filename = [filename, ''SPEED/'' @ filename, ''../'' @ filename]"

text \<open>The three paths that are searched for the file of a difficulty.\<close>

definition search_paths :: "difficulty \<Rightarrow> string list" where
  "search_paths d = (case file_mappings d of None \<Rightarrow> [] | Some filename \<Rightarrow> possible_paths filename)"

type_synonym word_cache = "difficulty \<rightharpoonup> string list"

definition get_words_for_difficulty ::
  "filesystem \<Rightarrow> word_cache \<Rightarrow> difficulty \<Rightarrow> (py_error + string list) \<times> word_cache" where
  "get_words_for_difficulty fs cache d =
     (case cache d of
        Some words \<Rightarrow> (Inr words, cache)
      | None \<Rightarrow>
          (case file_mappings d of
             None \<Rightarrow> (Inl ValueError, cache)
           | Some filename \<Rightarrow>
               (case try_paths fs (possible_paths filename) of
                  Some (Inr words) \<Rightarrow> (Inr words, cache(d \<mapsto> words))
                | Some (Inl e) \<Rightarrow> (Inl e, cache)
                | None \<Rightarrow>
                    (let fallback_words = get_fallback_words d
                     in (Inr fallback_words, cache(d \<mapsto> fallback_words))))))"

section \<open>speed\_word\_generator.py\<close>

subsection \<open>The random source and the clock\<close>

text \<open>
  \<open>random.Random\<close> is the interpreter's library, not code of the repository: its three
  operations that the generator uses are parameters of the model. \<open>'g\<close> is the state of
  the Mersenne Twister; \<open>rng_seed s\<close> is \<open>random.Random(s)\<close>, \<open>rng_sample g xs k\<close> is
  \<open>sample(xs, k)\<close> and \<open>rng_shuffle g xs\<close> is \<open>shuffle(xs)\<close>, each with the state after.
\<close>

record 'g rng_ops =
  rng_seed :: "int \<Rightarrow> 'g"
  rng_sample :: "'g \<Rightarrow> string list \<Rightarrow> nat \<Rightarrow> string list \<times> 'g"
  rng_shuffle :: "'g \<Rightarrow> string list \<Rightarrow> string list \<times> 'g"

text \<open>
  What the library documents of them: \<open>sample\<close> returns the elements at \<open>k\<close> pairwise
  different positions of the population, \<open>shuffle\<close> returns a rearrangement.
\<close>

definition sample_ok :: "'g rng_ops \<Rightarrow> bool" where
  "sample_ok ops =
     (\<forall>g xs k. k \<le> length xs \<longrightarrow>
        (\<exists>js. distinct js \<and> set js \<subseteq> {..< length xs} \<and> length js = k \<and>
              fst (rng_sample ops g xs k) = map (\<lambda>j. xs ! j) js))"

definition shuffle_ok :: "'g rng_ops \<Rightarrow> bool" where
  "shuffle_ok ops = (\<forall>g xs. mset (fst (rng_shuffle ops g xs)) = mset xs)"

text \<open>
  The world outside the generator: the word files and the clock. \<open>clock n\<close> is what the
  \<open>n\<close>-th call of \<open>time.time()\<close> returns.
\<close>

record env =
  files :: filesystem
  clock :: "nat \<Rightarrow> pyfloat"

text \<open>
  The fields of a \<open>WordGenerator\<close> that its methods read or write. \<open>word_cache\<close> is the
  cache of its \<open>word_loader\<close>, \<open>session_buffer_percentage\<close> the entry of \<open>config\<close>.
  \<open>clock_reads\<close> counts the calls of \<open>time.time()\<close> so far and \<open>log_times\<close> keeps the
  generation times that the methods write to the log.
\<close>

record 'g generator =
  rng :: 'g
  word_cache :: word_cache
  sources_loaded :: bool
  allow_phrases :: bool
  session_buffer_percentage :: int
  clock_reads :: nat
  log_times :: "pyfloat list"

definition WordGenerator :: "'g rng_ops \<Rightarrow> int \<Rightarrow> 'g generator" where
  "WordGenerator ops seed =
     \<lparr>rng = rng_seed ops seed, word_cache = Map.empty, sources_loaded = False,
      allow_phrases = False, session_buffer_percentage = 10, clock_reads = 0, log_times = []\<rparr>"

definition time_options :: "int list" where
  "time_options = [1, 2, 3, 5, 7, 10]"

definition word_counts :: "int list" where
  "word_counts = [70, 140, 210, 350, 490, 700]"

definition time_time :: "env \<Rightarrow> 'g generator \<Rightarrow> pyfloat \<times> 'g generator" where
  "time_time e st = (clock e (clock_reads st), st\<lparr>clock_reads := clock_reads st + 1\<rparr>)"

definition log_time :: "pyfloat \<Rightarrow> 'g generator \<Rightarrow> 'g generator" where
  "log_time t st = st\<lparr>log_times := log_times st @ [t]\<rparr>"

subsection \<open>Loading the sources\<close>

text \<open>
  The loop of \<open>load_default_sources\<close> over the difficulties: an exception of the loader
  is caught and the difficulty skipped; \<open>loaded\<close> collects those with a non-empty list.
\<close>

fun load_each :: "filesystem \<Rightarrow> difficulty list \<Rightarrow> word_cache \<Rightarrow> difficulty list \<Rightarrow> difficulty list \<times> word_cache" where
  "load_each fs [] cache loaded = (loaded, cache)"
| "load_each fs (d # ds) cache loaded =
     (case get_words_for_difficulty fs cache d of
        (Inl e, cache') \<Rightarrow> load_each fs ds cache' loaded
      | (Inr words, cache') \<Rightarrow>
          load_each fs ds cache' (if words \<noteq> [] then loaded @ [d] else loaded))"

definition load_default_sources :: "env \<Rightarrow> 'g generator \<Rightarrow> bool \<Rightarrow> (py_error + unit) \<times> 'g generator" where
  "load_default_sources e st allow =
     (let st1 = st\<lparr>allow_phrases := allow\<rparr>;
          (loaded_difficulties, cache') = load_each (files e) all_difficulties (word_cache st1) [];
          st2 = st1\<lparr>word_cache := cache'\<rparr>
      in if loaded_difficulties = [] then (Inl (RuntimeError ''Failed to load word sources''), st2)
         else (Inr (), st2\<lparr>sources_loaded := True\<rparr>))"

definition ensure_sources_loaded :: "env \<Rightarrow> 'g generator \<Rightarrow> (py_error + unit) \<times> 'g generator" where
  "ensure_sources_loaded e st =
     (if \<not> sources_loaded st then load_default_sources e st (allow_phrases st) else (Inr (), st))"

definition get_words :: "env \<Rightarrow> 'g generator \<Rightarrow> difficulty \<Rightarrow> (py_error + string list) \<times> 'g generator" where
  "get_words e st d =
     (case ensure_sources_loaded e st of
        (Inl err, st1) \<Rightarrow> (Inl err, st1)
      | (Inr u, st1) \<Rightarrow>
          (case get_words_for_difficulty (files e) (word_cache st1) d of
             (r, cache') \<Rightarrow> (r, st1\<lparr>word_cache := cache'\<rparr>)))"

text \<open>No word file exists at any search path; every cached list has an entry.\<close>

definition no_word_files :: "filesystem \<Rightarrow> bool" where
  "no_word_files fs = (\<forall>d. \<forall>p\<in>set (search_paths d). fs p = None)"

definition cache_nonempty :: "word_cache \<Rightarrow> bool" where
  "cache_nonempty cache = (\<forall>d ws. cache d = Some ws \<longrightarrow> ws \<noteq> [])"

text \<open>
  No cached entry is the empty string. The constructor starts with an empty cache and
  the loader only stores entries that it read from a file or its built-in lists.
\<close>

definition cache_entries_ok :: "word_cache \<Rightarrow> bool" where
  "cache_entries_ok cache = (\<forall>d ws. cache d = Some ws \<longrightarrow> (\<forall>w\<in>set ws. w \<noteq> []))"

subsection \<open>generate\_words\<close>

definition draw_batch :: "'g rng_ops \<Rightarrow> 'g \<Rightarrow> string list \<Rightarrow> nat \<Rightarrow> string list \<times> 'g" where
  "draw_batch ops g available_words batch_size =
     (if batch_size = length available_words then rng_shuffle ops g available_words
      else rng_sample ops g available_words batch_size)"

text \<open>
  The loop \<open>while remaining_count > 0\<close>. With an empty \<open>available_words\<close> the batch size
  is 0 and the loop of the source never ends: that is \<open>None\<close>.
\<close>

function batches :: "'g rng_ops \<Rightarrow> string list \<Rightarrow> 'g \<Rightarrow> nat \<Rightarrow> string list \<Rightarrow> (string list \<times> 'g) option" where
  "batches ops available_words g remaining_count selected_words =
     (if remaining_count = 0 then Some (selected_words, g)
      else if available_words = [] then None
      else (case draw_batch ops g available_words (min remaining_count (length available_words)) of
              (batch, g') \<Rightarrow>
                batches ops available_words g'
                  (remaining_count - min remaining_count (length available_words))
                  (selected_words @ batch)))"
  by pat_completeness auto
termination
  by (relation "measure (\<lambda>(ops, available_words, g, remaining_count, selected_words). remaining_count)")
     (auto simp: min_def)

text \<open>
  The selection of \<open>generate_words\<close>, after its checks; \<open>cnt\<close> is the parameter
  \<open>count\<close> of the source, positive here.
\<close>

definition select_words :: "'g rng_ops \<Rightarrow> 'g \<Rightarrow> string list \<Rightarrow> nat \<Rightarrow> (string list \<times> 'g) option" where
  "select_words ops g available_words cnt =
     (if cnt \<le> length available_words then Some (rng_sample ops g available_words cnt)
      else (case batches ops available_words g cnt [] of
              None \<Rightarrow> None
            | Some (selected_words, g') \<Rightarrow> Some (rng_shuffle ops g' selected_words)))"

definition generate_words ::
  "'g rng_ops \<Rightarrow> env \<Rightarrow> 'g generator \<Rightarrow> difficulty \<Rightarrow> int \<Rightarrow> (py_error + string list) \<times> 'g generator" where
  "generate_words ops e st d cnt =
     (if cnt \<le> 0 then (Inl ValueError, st)
      else (case time_time e st of (start_time, st0) \<Rightarrow>
        (case get_words e st0 d of
           (Inl err, st1) \<Rightarrow> (Inl err, st1)
         | (Inr available_words, st1) \<Rightarrow>
             if available_words = [] then (Inl (RuntimeError ''No words available for difficulty''), st1)
             else (case select_words ops (rng st1) available_words (nat cnt) of
                     None \<Rightarrow> (Inl Diverges, st1)
                   | Some (selected_words, g') \<Rightarrow>
                       (case time_time e (st1\<lparr>rng := g'\<rparr>) of (end_time, st2) \<Rightarrow>
                          (Inr selected_words, log_time (fsub end_time start_time) st2))))))"

subsection \<open>generate\_for\_session and generate\_for\_time\_selection\<close>

text \<open>The word count that \<open>generate_for_session\<close> passes to \<open>generate_words\<close>.\<close>

definition session_word_count :: "int \<Rightarrow> int \<Rightarrow> int \<Rightarrow> int" where
  "session_word_count buffer_percentage duration_seconds target_wpm =
     (let duration_minutes = fdiv (float_of_int duration_seconds) 60;
          base_word_count = int_of_float (fmul duration_minutes (float_of_int target_wpm));
          buffer_multiplier = fadd 1 (fdiv (float_of_int buffer_percentage) 100);
          total_word_count = int_of_float (fmul (float_of_int base_word_count) buffer_multiplier)
      in max total_word_count 10)"

definition generate_for_session ::
  "'g rng_ops \<Rightarrow> env \<Rightarrow> 'g generator \<Rightarrow> difficulty \<Rightarrow> int \<Rightarrow> int \<Rightarrow> (py_error + string list) \<times> 'g generator" where
  "generate_for_session ops e st d duration_seconds target_wpm =
     (if duration_seconds \<le> 0 then (Inl ValueError, st)
      else if target_wpm \<le> 0 then (Inl ValueError, st)
      else generate_words ops e st d
             (session_word_count (session_buffer_percentage st) duration_seconds target_wpm))"

text \<open>
  The count as the specification words it: the product of the minutes, the target and
  1.10 is floored once, then raised to at least 10.
\<close>

definition claimed_session_word_count :: "int \<Rightarrow> int \<Rightarrow> int" where
  "claimed_session_word_count duration_seconds target_wpm =
     max 10 (int_of_float (fmul (fmul (fdiv (float_of_int duration_seconds) 60) (float_of_int target_wpm))
                                (fl (11 / 10))))"

definition calculate_word_count_for_time :: "int \<Rightarrow> py_error + int" where
  "calculate_word_count_for_time minutes =
     (if minutes \<notin> set time_options then Inl ValueError
      else (case map_of (zip time_options word_counts) minutes of
              None \<Rightarrow> Inl ValueError
            | Some n \<Rightarrow> Inr n))"

definition generate_for_time_selection ::
  "'g rng_ops \<Rightarrow> env \<Rightarrow> 'g generator \<Rightarrow> difficulty \<Rightarrow> int \<Rightarrow> (py_error + string list) \<times> 'g generator" where
  "generate_for_time_selection ops e st d minutes =
     (if minutes \<notin> set time_options then (Inl ValueError, st)
      else (case time_time e st of (start_time, st0) \<Rightarrow>
        (case calculate_word_count_for_time minutes of
           Inl err \<Rightarrow> (Inl err, st0)
         | Inr word_count \<Rightarrow>
             (case generate_words ops e st0 d word_count of
                (Inl err, st1) \<Rightarrow> (Inl err, st1)
              | (Inr words, st1) \<Rightarrow>
                  (case time_time e st1 of (end_time, st2) \<Rightarrow>
                     (Inr words, log_time (fsub end_time start_time) st2))))))"

subsection \<open>generate\_paragraph\<close>

text \<open>
  The inner loop \<open>while word_index < len(available_words)\<close>: it returns the line and the
  index where it stopped. The counter \<open>line_word_count\<close> of the source is never read.
\<close>

function pack_line :: "string list \<Rightarrow> int \<Rightarrow> nat \<Rightarrow> string \<Rightarrow> string \<times> nat" where
  "pack_line available_words max_line_chars word_index current_line =
     (if word_index < length available_words
      then (let word = available_words ! word_index;
                test_line = (if current_line \<noteq> [] then current_line @ '' '' @ word else word)
            in if int (length test_line) \<le> max_line_chars
               then pack_line available_words max_line_chars (word_index + 1) test_line
               else (current_line, word_index))
      else (current_line, word_index))"
  by pat_completeness auto
termination
  by (relation "measure (\<lambda>(available_words, max_line_chars, word_index, current_line).
                            length available_words - word_index)") auto

text \<open>A word that fits on no line is placed alone on an empty line.\<close>

definition force_word :: "string list \<Rightarrow> string \<times> nat \<Rightarrow> string \<times> nat" where
  "force_word available_words p =
     (case p of (current_line, word_index) \<Rightarrow>
        if current_line = [] \<and> word_index < length available_words
        then (available_words ! word_index, word_index + 1)
        else (current_line, word_index))"

text \<open>
  The loop \<open>for line_num in range(lines)\<close> over the line numbers still to come.
  \<open>epl\<close> is \<open>estimated_words_per_line\<close>. An exception of \<open>generate_words\<close> leaves the loop.
\<close>

fun format_lines ::
  "'g rng_ops \<Rightarrow> env \<Rightarrow> difficulty \<Rightarrow> int \<Rightarrow> int \<Rightarrow> int \<Rightarrow> int list \<Rightarrow>
   'g generator \<Rightarrow> string list \<Rightarrow> nat \<Rightarrow> string list \<Rightarrow> (py_error + string list) \<times> 'g generator" where
  "format_lines ops e d lines max_line_chars epl [] st available_words word_index formatted_lines =
     (Inr formatted_lines, st)"
| "format_lines ops e d lines max_line_chars epl (line_num # rest) st available_words word_index formatted_lines =
     (case force_word available_words (pack_line available_words max_line_chars word_index []) of
        (current_line, word_index') \<Rightarrow>
          if current_line = [] \<and> length available_words \<le> word_index'
          then (case generate_words ops e st d (epl * 2) of
                  (Inl err, st') \<Rightarrow> (Inl err, st')
                | (Inr additional_words, st') \<Rightarrow>
                    format_lines ops e d lines max_line_chars epl rest st'
                      (available_words @ additional_words) word_index' formatted_lines)
          else if length available_words \<le> word_index' \<and> line_num < lines - 1
          then (case generate_words ops e st d (epl * (lines - line_num)) of
                  (Inl err, st') \<Rightarrow> (Inl err, st')
                | (Inr additional_words, st') \<Rightarrow>
                    format_lines ops e d lines max_line_chars epl rest st'
                      (available_words @ additional_words) word_index' (formatted_lines @ [current_line]))
          else format_lines ops e d lines max_line_chars epl rest st
                 available_words word_index' (formatted_lines @ [current_line]))"

definition generate_paragraph ::
  "'g rng_ops \<Rightarrow> env \<Rightarrow> 'g generator \<Rightarrow> difficulty \<Rightarrow> int \<Rightarrow> int \<Rightarrow> (py_error + string list) \<times> 'g generator" where
  "generate_paragraph ops e st d lines max_line_chars =
     (if lines \<le> 0 then (Inl ValueError, st)
      else if max_line_chars \<le> 0 then (Inl ValueError, st)
      else (case time_time e st of (start_time, st0) \<Rightarrow>
        (let avg_word_length = 6;
             estimated_words_per_line = max 1 (max_line_chars div avg_word_length);
             total_estimated_words = lines * estimated_words_per_line;
             buffer_words = int_of_float (fmul (float_of_int total_estimated_words) (3 / 2))
         in case generate_words ops e st0 d buffer_words of
              (Inl err, st1) \<Rightarrow> (Inl err, st1)
            | (Inr available_words, st1) \<Rightarrow>
                (case format_lines ops e d lines max_line_chars estimated_words_per_line
                        [0 .. lines - 1] st1 available_words 0 [] of
                   (Inl err, st2) \<Rightarrow> (Inl err, st2)
                 | (Inr formatted_lines, st2) \<Rightarrow>
                     (case time_time e st2 of (end_time, st3) \<Rightarrow>
                        (Inr formatted_lines, log_time (fsub end_time start_time) st3))))))"

text \<open>
  A line respects the limit, or is one entry of the pool that alone exceeds it.
\<close>

definition line_fits :: "string list \<Rightarrow> int \<Rightarrow> string \<Rightarrow> bool" where
  "line_fits pool max_line_chars l =
     (int (length l) \<le> max_line_chars \<or> (l \<in> set pool \<and> max_line_chars < int (length l)))"

subsection \<open>generate\_mixed\<close>

text \<open>
  A key of the \<open>weights\<close> dictionary is a \<open>Difficulty\<close> or some other object. The
  dictionary is the list of its items in insertion order, which is the order Python
  iterates in; its keys are pairwise different.
\<close>

datatype weight_key = Level difficulty | NotADifficulty

fun validate_weights :: "(weight_key \<times> pyfloat) list \<Rightarrow> py_error + (difficulty \<times> pyfloat) list" where
  "validate_weights [] = Inr []"
| "validate_weights ((k, weight) # rest) =
     (case k of
        NotADifficulty \<Rightarrow> Inl ValueError
      | Level d \<Rightarrow>
          if weight < 0 then Inl ValueError
          else (case validate_weights rest of
                  Inl err \<Rightarrow> Inl err
                | Inr ws \<Rightarrow> Inr ((d, weight) # ws)))"

text \<open>\<open>sum(weights.values())\<close>: the floats are added from left to right, starting from 0.\<close>

definition sum_floats :: "pyfloat list \<Rightarrow> pyfloat" where
  "sum_floats ws = foldl fadd 0 ws"

text \<open>
  \<open>fractional_parts.sort(reverse=True)\<close> sorts pairs of a float and a \<open>Difficulty\<close>.
  Python compares two pairs by their first components and, when these are equal, by
  the second ones; \<open>Difficulty\<close> is a plain \<open>Enum\<close> without an order, so that comparison
  raises \<open>TypeError\<close>. A comparison sort has to compare two elements with equal
  fractional parts with each other to place them, so the sort raises exactly when two
  fractional parts are equal, and otherwise returns the one descending order.
\<close>

definition sort_reverse :: "(pyfloat \<times> difficulty) list \<Rightarrow> py_error + (pyfloat \<times> difficulty) list" where
  "sort_reverse xs = (if distinct (map fst xs) then Inr (rev (sort_key fst xs)) else Inl TypeError)"

text \<open>\<open>difficulty_counts[difficulty] += 1\<close>\<close>

definition add_one :: "difficulty \<Rightarrow> (difficulty \<times> int) list \<Rightarrow> (difficulty \<times> int) list" where
  "add_one d counts = map (\<lambda>(k, c). if k = d then (k, c + 1) else (k, c)) counts"

definition fractional_part :: "int \<Rightarrow> pyfloat \<Rightarrow> pyfloat" where
  "fractional_part total_count weight =
     (let exact_count = fmul (float_of_int total_count) weight
      in fsub exact_count (float_of_int (int_of_float exact_count)))"

definition distribute_remaining ::
  "int \<Rightarrow> (difficulty \<times> pyfloat) list \<Rightarrow> (difficulty \<times> int) list \<Rightarrow> int \<Rightarrow> py_error + (difficulty \<times> int) list" where
  "distribute_remaining total_count normalized_weights difficulty_counts remaining =
     (if 0 < remaining
      then (case sort_reverse (map (\<lambda>(d, weight). (fractional_part total_count weight, d)) normalized_weights) of
              Inl err \<Rightarrow> Inl err
            | Inr fractional_parts \<Rightarrow>
                Inr (fold add_one (map snd (take (nat remaining) fractional_parts)) difficulty_counts))
      else Inr difficulty_counts)"

text \<open>
  The loop over \<open>difficulty_counts.items()\<close>. An exception of \<open>generate_words\<close> is caught
  and the count is asked of \<open>first_available\<close>, the first key, unless that is the failing
  difficulty itself; an exception there is caught too. \<open>first_available\<close> is \<open>None\<close>
  when \<open>difficulty_counts\<close> is empty. A loop that does not return is not an exception.
\<close>

fun generate_each ::
  "'g rng_ops \<Rightarrow> env \<Rightarrow> difficulty option \<Rightarrow> (difficulty \<times> int) list \<Rightarrow>
   'g generator \<Rightarrow> string list \<Rightarrow> (py_error + string list) \<times> 'g generator" where
  "generate_each ops e first_available [] st all_words = (Inr all_words, st)"
| "generate_each ops e first_available ((d, cnt) # rest) st all_words =
     (if 0 < cnt
      then (case generate_words ops e st d cnt of
              (Inr words, st') \<Rightarrow> generate_each ops e first_available rest st' (all_words @ words)
            | (Inl err, st') \<Rightarrow>
                if err = Diverges then (Inl Diverges, st')
                else (case first_available of
                        None \<Rightarrow> generate_each ops e first_available rest st' all_words
                      | Some fa \<Rightarrow>
                          if fa \<noteq> d
                          then (case generate_words ops e st' fa cnt of
                                  (Inr compensation_words, st'') \<Rightarrow>
                                    generate_each ops e first_available rest st'' (all_words @ compensation_words)
                                | (Inl err', st'') \<Rightarrow>
                                    if err' = Diverges then (Inl Diverges, st'')
                                    else generate_each ops e first_available rest st'' all_words)
                          else generate_each ops e first_available rest st' all_words))
      else generate_each ops e first_available rest st all_words)"

definition first_key :: "(difficulty \<times> int) list \<Rightarrow> difficulty option" where
  "first_key difficulty_counts = (case difficulty_counts of [] \<Rightarrow> None | (d, c) # rest \<Rightarrow> Some d)"

text \<open>
  The counts per difficulty: the weights are normalized, every share is truncated, and
  what is left of \<open>total_count\<close> is distributed.
\<close>

definition allocate_counts ::
  "(difficulty \<times> pyfloat) list \<Rightarrow> pyfloat \<Rightarrow> int \<Rightarrow> py_error + (difficulty \<times> int) list" where
  "allocate_counts ws total_weight total_count =
     (let normalized_weights = map (\<lambda>(d, weight). (d, fdiv weight total_weight)) ws;
          difficulty_counts =
            map (\<lambda>(d, weight). (d, int_of_float (fmul (float_of_int total_count) weight)))
              normalized_weights;
          allocated_count = sum_list (map snd difficulty_counts);
          remaining = total_count - allocated_count
      in distribute_remaining total_count normalized_weights difficulty_counts remaining)"

definition generate_mixed ::
  "'g rng_ops \<Rightarrow> env \<Rightarrow> 'g generator \<Rightarrow> (weight_key \<times> pyfloat) list \<Rightarrow> int \<Rightarrow>
   (py_error + string list) \<times> 'g generator" where
  "generate_mixed ops e st weights total_count =
     (if total_count \<le> 0 then (Inl ValueError, st)
      else if weights = [] then (Inl ValueError, st)
      else (case validate_weights weights of
              Inl err \<Rightarrow> (Inl err, st)
            | Inr ws \<Rightarrow>
                (case time_time e st of (start_time, st0) \<Rightarrow>
                  (let total_weight = sum_floats (map snd ws)
                   in if total_weight = 0 then (Inl ValueError, st0)
                      else (case allocate_counts ws total_weight total_count of
                              Inl err \<Rightarrow> (Inl err, st0)
                            | Inr difficulty_counts \<Rightarrow>
                                (case generate_each ops e (first_key difficulty_counts) difficulty_counts st0 [] of
                                   (Inl err, st1) \<Rightarrow> (Inl err, st1)
                                 | (Inr all_words, st1) \<Rightarrow>
                                     (case rng_shuffle ops (rng st1) all_words of (shuffled, g') \<Rightarrow>
                                       (case time_time e (st1\<lparr>rng := g'\<rparr>) of (end_time, st2) \<Rightarrow>
                                          (Inr shuffled, log_time (fsub end_time start_time) st2)))))))))"

subsection \<open>Sequences of calls\<close>

datatype call =
    GenerateWords difficulty int
  | GenerateForSession difficulty int int
  | GenerateForTimeSelection difficulty int
  | GenerateParagraph difficulty int int
  | GenerateMixed "(weight_key \<times> pyfloat) list" int

fun perform :: "'g rng_ops \<Rightarrow> env \<Rightarrow> 'g generator \<Rightarrow> call \<Rightarrow> (py_error + string list) \<times> 'g generator" where
  "perform ops e st (GenerateWords d cnt) = generate_words ops e st d cnt"
| "perform ops e st (GenerateForSession d duration_seconds target_wpm) =
     generate_for_session ops e st d duration_seconds target_wpm"
| "perform ops e st (GenerateForTimeSelection d minutes) = generate_for_time_selection ops e st d minutes"
| "perform ops e st (GenerateParagraph d lines max_line_chars) = generate_paragraph ops e st d lines max_line_chars"
| "perform ops e st (GenerateMixed weights total_count) = generate_mixed ops e st weights total_count"

text \<open>The outputs of a sequence of calls on one generator, call for call.\<close>

fun outputs :: "'g rng_ops \<Rightarrow> env \<Rightarrow> 'g generator \<Rightarrow> call list \<Rightarrow> (py_error + string list) list" where
  "outputs ops e st [] = []"
| "outputs ops e st (c # cs) =
     (case perform ops e st c of (r, st') \<Rightarrow> r # outputs ops e st' cs)"

section \<open>game/database\_manager.py\<close>

text \<open>
  A \<open>ScoreRecord\<close>. The field \<open>id\<close> of the source is \<open>row_id\<close> here; \<open>date\<close> is a point in
  time, in microseconds. A row of the table \<open>scores\<close> is the record that
  \<open>_row_to_score_record\<close> makes of it, with \<open>row_id = Some k\<close>.
\<close>

record ScoreRecord =
  row_id :: "int option"
  user_name :: string
  wpm :: pyfloat
  accuracy :: pyfloat
  level :: string
  mode :: string
  date :: int
  duration :: int
  total_characters :: int
  correct_characters :: int











section \<open>game/speed\_engine.py\<close>

datatype GameMode = PRACTICE | TIMED_CHALLENGE | ACCURACY_FOCUS | SPEED_BURST | ENDURANCE

datatype DifficultyLevel = BEGINNER | INTERMEDIATE | ADVANCED | EXPERT

text \<open>The \<open>value\<close> of a member of the two enumerations.\<close>

fun mode_value :: "GameMode \<Rightarrow> string" where
  "mode_value PRACTICE = ''practice''"
| "mode_value TIMED_CHALLENGE = ''timed_challenge''"
| "mode_value ACCURACY_FOCUS = ''accuracy_focus''"
| "mode_value SPEED_BURST = ''speed_burst''"
| "mode_value ENDURANCE = ''endurance''"

fun level_value :: "DifficultyLevel \<Rightarrow> string" where
  "level_value BEGINNER = ''beginner''"
| "level_value INTERMEDIATE = ''intermediate''"
| "level_value ADVANCED = ''advanced''"
| "level_value EXPERT = ''expert''"

text \<open>
  A \<open>GameSession\<close>. The fields \<open>user_name\<close>, \<open>mode\<close> and \<open>difficulty\<close> of the source carry
  the prefix \<open>session_\<close> here; the two times are points in time, in microseconds.
\<close>

record GameSession =
  session_id :: string
  session_user_name :: string
  session_mode :: GameMode
  session_difficulty :: DifficultyLevel
  start_time :: int
  target_text :: string
  duration_seconds :: int
  is_active :: bool
  end_time :: "int option"
  typed_text :: string
  current_wpm :: pyfloat
  current_accuracy :: pyfloat

text \<open>
  The engine. A callback is known by a number; \<open>end_calls\<close> lists the calls of session-end
  callbacks made so far, each with its argument. The mutex makes a method one step.
\<close>

record SpeedEngine =
  current_session :: "GameSession option"
  update_callbacks :: "nat list"
  session_end_callbacks :: "nat list"
  end_calls :: "(nat \<times> ScoreRecord option) list"

text \<open>
  What a method takes from outside the engine at the time of a call: the text that
  \<open>_generate_target_text\<close> and \<open>_generate_time_based_text\<close> produce from the word
  generators and the random source, \<open>time.time()\<close> and \<open>datetime.now()\<close>.
\<close>

record world =
  generate_target_text :: "GameMode \<Rightarrow> DifficultyLevel \<Rightarrow> int \<Rightarrow> string"
  generate_time_based_text :: "GameMode \<Rightarrow> DifficultyLevel \<Rightarrow> int \<Rightarrow> string"
  time_now :: pyfloat
  datetime_now :: int

definition is_session_active :: "SpeedEngine \<Rightarrow> bool" where
  "is_session_active eng = (case current_session eng of None \<Rightarrow> False | Some s \<Rightarrow> is_active s)"

text \<open>\<open>str(n)\<close> for an integer.\<close>

function decimal :: "nat \<Rightarrow> string" where
  "decimal n = (if n < 10 then [char_of (48 + n)] else decimal (n div 10) @ [char_of (48 + n mod 10)])"
  by pat_completeness auto
termination
  by (relation "measure (\<lambda>n. n)") auto

definition str_int :: "int \<Rightarrow> string" where
  "str_int n = (if n < 0 then CHR ''-'' # decimal (nat (- n)) else decimal (nat n))"

text \<open>\<open>len(text.split('\n'))\<close>: one more than the number of line feeds.\<close>

definition line_count :: "string \<Rightarrow> int" where
  "line_count text = int (length (filter (\<lambda>c. c = CHR 0x0A) text)) + 1"

definition expected_wpm :: "DifficultyLevel \<Rightarrow> int" where
  "expected_wpm difficulty =
     (case difficulty of BEGINNER \<Rightarrow> 25 | INTERMEDIATE \<Rightarrow> 40 | ADVANCED \<Rightarrow> 55 | EXPERT \<Rightarrow> 70)"

definition calculate_dynamic_duration :: "string \<Rightarrow> DifficultyLevel \<Rightarrow> GameMode \<Rightarrow> int" where
  "calculate_dynamic_duration text difficulty game_mode =
     (let word_count = int (length (py_split text));
          base_time = fmul (fdiv (of_int word_count) (of_int (expected_wpm difficulty))) 60;
          mode_multiplier =
            (case game_mode of
               ACCURACY_FOCUS \<Rightarrow> 3 / 2
             | SPEED_BURST \<Rightarrow> fl (8 / 10)
             | ENDURANCE \<Rightarrow> fl (12 / 10)
             | TIMED_CHALLENGE \<Rightarrow> fl (13 / 10)
             | PRACTICE \<Rightarrow> 1);
          complexity_multiplier =
            (case difficulty of
               EXPERT \<Rightarrow> fmul mode_multiplier (fl (14 / 10))
             | ADVANCED \<Rightarrow> fmul mode_multiplier (fl (12 / 10))
             | _ \<Rightarrow> mode_multiplier);
          line_bonus = max 0 ((line_count text - 5) * 5);
          final_duration = int_of_float (fadd (fmul base_time complexity_multiplier) (float_of_int line_bonus))
      in max 30 (min 600 final_duration))"

definition new_session ::
  "world \<Rightarrow> string \<Rightarrow> GameMode \<Rightarrow> DifficultyLevel \<Rightarrow> string \<Rightarrow> int \<Rightarrow> GameSession" where
  "new_session w name game_mode difficulty text seconds =
     \<lparr>session_id = name @ ''_'' @ str_int (int_of_float (time_now w)),
      session_user_name = name, session_mode = game_mode, session_difficulty = difficulty,
      start_time = datetime_now w, target_text = text, duration_seconds = seconds,
      is_active = True, end_time = None, typed_text = [], current_wpm = 0, current_accuracy = 0\<rparr>"

definition start_session ::
  "world \<Rightarrow> SpeedEngine \<Rightarrow> string \<Rightarrow> GameMode \<Rightarrow> DifficultyLevel \<Rightarrow> int \<Rightarrow> bool \<times> SpeedEngine" where
  "start_session w eng name game_mode difficulty seconds =
     (if is_session_active eng then (False, eng)
      else (let text = generate_target_text w game_mode difficulty seconds;
                dynamic_duration = calculate_dynamic_duration text difficulty game_mode
            in (True, eng\<lparr>current_session :=
                         Some (new_session w name game_mode difficulty text dynamic_duration)\<rparr>)))"

definition start_time_based_session ::
  "world \<Rightarrow> SpeedEngine \<Rightarrow> string \<Rightarrow> GameMode \<Rightarrow> DifficultyLevel \<Rightarrow> int \<Rightarrow> bool \<times> SpeedEngine" where
  "start_time_based_session w eng name game_mode difficulty minutes =
     (if is_session_active eng then (False, eng)
      else (let text = generate_time_based_text w game_mode difficulty minutes
            in (True, eng\<lparr>current_session :=
                         Some (new_session w name game_mode difficulty text (minutes * 60))\<rparr>)))"

text \<open>
  \<open>_finalize_session\<close> for the current session \<open>s\<close>: the session is closed and the score
  record is made of the entries of \<open>calculate_final_result\<close> that it reads.
\<close>

definition finalize_session :: "world \<Rightarrow> GameSession \<Rightarrow> ScoreRecord \<times> GameSession" where
  "finalize_session w s =
     (let ended = s\<lparr>is_active := False, end_time := Some (datetime_now w)\<rparr>;
          total_time = fdiv (of_int (datetime_now w - start_time s)) 1000000;
          typed = typed_text s;
          target = target_text s
      in (\<lparr>row_id = None, user_name = session_user_name s,
           wpm = calculate_wpm typed total_time,
           accuracy = calculate_accuracy typed target,
           level = level_value (session_difficulty s),
           mode = mode_value (session_mode s),
           date = datetime_now w,
           duration = int_of_float total_time,
           total_characters = int (length typed),
           correct_characters = int (count_correct typed target (min (length typed) (length target)))\<rparr>,
          ended))"

definition end_session :: "world \<Rightarrow> SpeedEngine \<Rightarrow> ScoreRecord option \<times> SpeedEngine" where
  "end_session w eng =
     (case current_session eng of
        None \<Rightarrow> (None, eng)
      | Some s \<Rightarrow>
          if \<not> is_active s then (None, eng)
          else (case finalize_session w s of
                  (score_record, ended) \<Rightarrow>
                    (Some score_record,
                     eng\<lparr>current_session := Some ended,
                         end_calls := end_calls eng @
                           map (\<lambda>callback. (callback, Some score_record)) (session_end_callbacks eng)\<rparr>)))"

definition new_engine :: SpeedEngine where
  "new_engine = \<lparr>current_session = None, update_callbacks = [], session_end_callbacks = [0, 1], end_calls = []\<rparr>"

definition fixed_text_world :: world where
  "fixed_text_world =
     \<lparr>generate_target_text = (\<lambda>game_mode difficulty seconds. ''the and for''),
      generate_time_based_text = (\<lambda>game_mode difficulty minutes. ''are but not''),
      time_now = 1700000000, datetime_now = 1700000000000000\<rparr>"

text \<open>
  The result of a method with the log of the generator replaced: two runs that differ
  only in what the clock returns end in results that are equal up to the log.
\<close>

definition relog :: "pyfloat list \<Rightarrow> 'r \<times> 'g generator \<Rightarrow> 'r \<times> 'g generator" where
  "relog l p = (fst p, (snd p)\<lparr>log_times := l\<rparr>)"

section \<open>Concrete inputs\<close>

text \<open>
  A word file of some thousand lines of ASCII with the byte \<open>0xE9\<close> in its last line, cut
  down to three lines: read as UTF-8, with or without signature, the lines of the first
  block are handed out before the decoder reaches the byte and raises; Latin-1 reads
  the whole file.
\<close>

definition first_block :: "string list" where
  "first_block = [''alpha'' @ [CHR 0x0A], ''beta'' @ [CHR 0x0A]]"

definition whole_file :: "string list" where
  "whole_file = [''alpha'' @ [CHR 0x0A], ''beta'' @ [CHR 0x0A], ''caf'' @ [CHR 0xE9, CHR 0x0A]]"

definition late_bad_byte :: word_file where
  "late_bad_byte enc =
     (if enc = UTF_8 \<or> enc = UTF_8_SIG then (first_block, UnicodeDecodeError)
      else (whole_file, EndOfFile))"

text \<open>A file without a line, under every encoding.\<close>

definition empty_word_file :: word_file where
  "empty_word_file enc = ([], EndOfFile)"

text \<open>A file with the word \<open>a\<close> on two lines.\<close>

definition repeated_word_file :: word_file where
  "repeated_word_file enc = ([''a'' @ [CHR 0x0A], ''a'' @ [CHR 0x0A]], EndOfFile)"

text \<open>
  A random source to run the model on: \<open>sample\<close> returns the first \<open>k\<close> elements and
  \<open>shuffle\<close> reverses the list. Both are among the results the library can return.
\<close>

definition first_rng :: "unit rng_ops" where
  "first_rng =
     \<lparr>rng_seed = (\<lambda>s. ()),
      rng_sample = (\<lambda>g xs k. (take k xs, g)),
      rng_shuffle = (\<lambda>g xs. (rev xs, g))\<rparr>"

definition no_files :: env where
  "no_files = \<lparr>files = Map.empty, clock = (\<lambda>n. of_nat n)\<rparr>"

text \<open>The same word sources on another day: the clock is ahead and runs faster.\<close>

definition no_files_later :: env where
  "no_files_later = \<lparr>files = Map.empty, clock = (\<lambda>n. 86400 + 3 * of_nat n)\<rparr>"

definition empty_simple_file :: env where
  "empty_simple_file = \<lparr>files = [''simple_words_large.txt'' \<mapsto> empty_word_file], clock = (\<lambda>n. of_nat n)\<rparr>"

definition repeated_simple_file :: env where
  "repeated_simple_file = \<lparr>files = [''simple_words_large.txt'' \<mapsto> repeated_word_file], clock = (\<lambda>n. of_nat n)\<rparr>"



section \<open>Float rounding\<close>

text \<open>Rounding to the nearest float does not take a number from 1 upwards below 1.\<close>

lemma bitlen_powi_bounds:
  assumes "0 < p"
  shows "(2::rat) powi (bitlen p - 1) \<le> of_int p" and "of_int p < (2::rat) powi bitlen p"
proof -
  from bitlen_bounds [OF assms]
  have lo: "2 ^ nat (bitlen p - 1) \<le> p" and hi: "p < 2 ^ nat (bitlen p)" by simp_all
  have b: "1 \<le> bitlen p"
    using assms by (simp add: bitlen_alt_def)
  have "(of_int (2 ^ nat (bitlen p - 1)) :: rat) \<le> of_int p"
    using lo by (simp only: of_int_le_iff)
  then show "(2::rat) powi (bitlen p - 1) \<le> of_int p"
    using b by (simp add: power_int_nonneg_exp)
  have "(of_int p :: rat) < of_int (2 ^ nat (bitlen p))"
    using hi by (simp only: of_int_less_iff)
  then show "of_int p < (2::rat) powi bitlen p"
    using b by (simp add: power_int_nonneg_exp)
qed

lemma binexp_bounds:
  assumes "0 < x"
  shows "2 ^ 52 \<le> x / 2 powi binexp x" and "x / 2 powi binexp x < 2 ^ 53"
proof -
  obtain p q where pq: "quotient_of x = (p, q)"
    by (cases "quotient_of x")
  have q: "0 < q" using pq by (rule quotient_of_denom_pos)
  have x: "x = of_int p / of_int q" using pq by (rule quotient_of_div)
  have p: "0 < p"
    using assms q x by (simp add: zero_less_divide_iff)
  define k where "k = bitlen p - bitlen q"
  note P = bitlen_powi_bounds [OF p] and Q = bitlen_powi_bounds [OF q]
  have pos: "\<And>n. (0::rat) < 2 powi n" by simp
  have "x < 2 powi bitlen p / 2 powi (bitlen q - 1)"
    unfolding x using p q P Q pos by (intro frac_less) simp_all
  also have "\<dots> = 2 powi (k + 1)"
    by (simp add: k_def power_int_diff [symmetric] algebra_simps)
  finally have up: "x < 2 powi (k + 1)" .
  have "2 powi (bitlen p - 1) / 2 powi bitlen q < x"
    unfolding x using p q P Q pos by (intro frac_less2) simp_all
  moreover have "(2::rat) powi (bitlen p - 1) / 2 powi bitlen q = 2 powi (k - 1)"
    by (simp add: k_def power_int_diff [symmetric] algebra_simps)
  ultimately have lo: "2 powi (k - 1) < x" by simp
  have scale: "\<And>a b :: int. (2::rat) powi a / 2 powi b = 2 powi (a - b)"
    by (simp add: power_int_diff)
  show "2 ^ 52 \<le> x / 2 powi binexp x"
  proof (cases "x < 2 powi k")
    case True
    then have e: "binexp x = k - 53"
      by (simp add: binexp_def pq k_def)
    have "2 powi (k - 1) / 2 powi (k - 53) \<le> x / 2 powi (k - 53)"
      using lo pos by (intro divide_right_mono) simp_all
    then show ?thesis
      by (simp only: e scale) simp
  next
    case False
    then have e: "binexp x = k - 52"
      by (simp add: binexp_def pq k_def)
    have "2 powi k / 2 powi (k - 52) \<le> x / 2 powi (k - 52)"
      using False pos by (intro divide_right_mono) simp_all
    then show ?thesis
      by (simp only: e scale) simp
  qed
  show "x / 2 powi binexp x < 2 ^ 53"
  proof (cases "x < 2 powi k")
    case True
    then have e: "binexp x = k - 53"
      by (simp add: binexp_def pq k_def)
    have "x / 2 powi (k - 53) < 2 powi k / 2 powi (k - 53)"
      using True pos by (intro divide_strict_right_mono) simp_all
    then show ?thesis
      by (simp only: e scale) simp
  next
    case False
    then have e: "binexp x = k - 52"
      by (simp add: binexp_def pq k_def)
    have "x / 2 powi (k - 52) < 2 powi (k + 1) / 2 powi (k - 52)"
      using up pos by (intro divide_strict_right_mono) simp_all
    then show ?thesis
      by (simp only: e scale) simp
  qed
qed

lemma round_half_even_ge_floor: "\<lfloor>r\<rfloor> \<le> round_half_even r"
  by (simp add: round_half_even_def Let_def)

lemma fl_ge_one:
  assumes "1 \<le> x"
  shows "1 \<le> fl x"
proof -
  have x0: "0 < x" using assms by simp
  define e where "e = binexp x"
  define y where "y = x / 2 powi e"
  have B: "2 ^ 52 \<le> y" "y < 2 ^ 53"
    using binexp_bounds [OF x0] by (simp_all add: y_def e_def)
  have "(2::int) ^ 52 \<le> \<lfloor>y\<rfloor>"
    using B(1) by (simp add: le_floor_iff)
  then have m: "(2::int) ^ 52 \<le> round_half_even y"
    using round_half_even_ge_floor [of y] by (rule order_trans)
  have flx: "fl x = of_int (round_half_even y) * 2 powi e"
    using x0 by (simp add: fl_def Let_def e_def y_def)
  have pos: "(0::rat) < 2 powi e" by simp
  have "x < 2 ^ 53 * 2 powi e"
    using B(2) pos by (simp add: y_def pos_divide_less_eq)
  also have "\<dots> = 2 powi (53 + e)"
    by (simp add: power_int_add)
  finally have "(1::rat) < 2 powi (53 + e)"
    using assms by simp
  then have "0 < 53 + e"
  proof (rule contrapos_pp)
    assume "\<not> 0 < 53 + e"
    then have "(2::rat) powi (53 + e) \<le> 2 powi 0"
      by (intro power_int_increasing) simp_all
    then show "\<not> (1::rat) < 2 powi (53 + e)" by simp
  qed
  then have "(1::rat) \<le> 2 powi (52 + e)"
    by (intro one_le_power_int) simp_all
  also have "\<dots> = 2 ^ 52 * 2 powi e"
    by (simp add: power_int_add)
  also have "\<dots> \<le> of_int (round_half_even y) * 2 powi e"
  proof (rule mult_right_mono)
    have "(of_int (2 ^ 52) :: rat) \<le> of_int (round_half_even y)"
      using m by (simp only: of_int_le_iff)
    then show "(2::rat) ^ 52 \<le> of_int (round_half_even y)" by simp
  qed simp
  finally show ?thesis by (simp add: flx)
qed

lemma buffer_words_positive:
  assumes "1 \<le> n"
  shows "1 \<le> int_of_float (fmul (float_of_int n) (3 / 2))"
proof -
  have "(1::rat) \<le> of_int n" using assms by simp
  then have a: "1 \<le> float_of_int n"
    unfolding float_of_int_def by (rule fl_ge_one)
  then have "1 \<le> float_of_int n * (3 / 2)" by simp
  then have "1 \<le> fmul (float_of_int n) (3 / 2)"
    unfolding fmul_def by (rule fl_ge_one)
  then show ?thesis
    by (simp add: int_of_float_def le_floor_iff)
qed

section \<open>Performance metrics\<close>








section \<open>Word source loader\<close>

lemma read_line_append: "read_line allow raw words = words @ read_line allow raw []"
  by (simp add: read_line_def Let_def)

lemma fold_read_line: "fold (read_line allow) lines words = words @ parse_lines allow lines"
proof (induction lines arbitrary: words)
  case Nil
  show ?case by (simp add: parse_lines_def)
next
  case (Cons raw lines)
  have "fold (read_line allow) (raw # lines) words = read_line allow raw words @ parse_lines allow lines"
    using Cons [of "read_line allow raw words"] by simp
  also have "\<dots> = words @ (read_line allow raw [] @ parse_lines allow lines)"
    by (subst read_line_append) simp
  also have "read_line allow raw [] @ parse_lines allow lines = parse_lines allow (raw # lines)"
    using Cons [of "read_line allow raw []"] by (simp add: parse_lines_def)
  finally show ?case .
qed

text \<open>
  Claim C7. \<open>load_file\<close> is said to return the entries of the file as read under the
  first encoding that decodes it, with nothing from an attempt that failed partway.
  The list \<open>words\<close> is not emptied between the attempts: when the UTF-8 reads hand out
  lines before they fail and Latin-1 reads the file to its end, the result starts with
  the entries of the lines seen by each failed read, followed by those of the whole file.
\<close>

theorem load_file_keeps_failed_reads:
  assumes "fs filepath = Some f"
    and "f UTF_8 = (seen, UnicodeDecodeError)"
    and "f UTF_8_SIG = (seen', UnicodeDecodeError)"
    and "f LATIN_1 = (lines, EndOfFile)"
  shows "load_file fs filepath allow =
           Inr (parse_lines allow seen @ parse_lines allow seen' @ parse_lines allow lines)
         \<and> map_option (parse_lines allow) (first_decoding f encodings_to_try) =
           Some (parse_lines allow lines)"
  using assms by (simp add: load_file_def encodings_to_try_def fold_read_line)

theorem load_file_keeps_failed_reads_witness:
  "load_file [''words.txt'' \<mapsto> late_bad_byte] ''words.txt'' False =
     Inr [''alpha'', ''beta'', ''alpha'', ''beta'', ''alpha'', ''beta'', ''caf'' @ [CHR 0xE9]]
   \<and> map_option (parse_lines False) (first_decoding late_bad_byte encodings_to_try) =
     Some [''alpha'', ''beta'', ''caf'' @ [CHR 0xE9]]"
proof -
  have p1: "parse_lines False first_block = [''alpha'', ''beta'']"
    by code_simp
  have p2: "parse_lines False whole_file = [''alpha'', ''beta'', ''caf'' @ [CHR 0xE9]]"
    by code_simp
  show ?thesis
    using load_file_keeps_failed_reads [of "[''words.txt'' \<mapsto> late_bad_byte]" "''words.txt''" late_bad_byte
        first_block first_block whole_file False]
    by (simp add: late_bad_byte_def p1 p2)
qed

lemma try_paths_no_file: "\<forall>p\<in>set ps. fs p = None \<Longrightarrow> try_paths fs ps = None"
  by (induction ps) (simp_all add: load_file_def)

lemma file_mappings_total: "\<exists>filename. file_mappings d = Some filename"
  by (cases d) (simp_all add: file_mappings_def)

lemma get_fallback_words_nonempty: "get_fallback_words d \<noteq> []"
  by (cases d) (simp_all add: base_words_def)

lemma get_words_for_difficulty_cached:
  "cache d = Some ws \<Longrightarrow> get_words_for_difficulty fs cache d = (Inr ws, cache)"
  by (simp add: get_words_for_difficulty_def)

lemma get_words_for_difficulty_no_file:
  assumes "cache d = None" and "\<forall>p\<in>set (search_paths d). fs p = None"
  shows "get_words_for_difficulty fs cache d =
           (Inr (get_fallback_words d), cache(d \<mapsto> get_fallback_words d))"
proof -
  obtain filename where f: "file_mappings d = Some filename"
    using file_mappings_total by blast
  with assms(2) have "try_paths fs (possible_paths filename) = None"
    by (simp add: search_paths_def try_paths_no_file)
  with assms(1) f show ?thesis
    by (simp add: get_words_for_difficulty_def Let_def)
qed

lemma get_words_for_difficulty_nonempty:
  assumes "no_word_files fs" and "cache_nonempty cache"
  shows "\<exists>ws cache'. get_words_for_difficulty fs cache d = (Inr ws, cache') \<and> ws \<noteq> [] \<and> cache_nonempty cache'"
proof (cases "cache d")
  case None
  with assms(1) have "get_words_for_difficulty fs cache d =
      (Inr (get_fallback_words d), cache(d \<mapsto> get_fallback_words d))"
    by (simp add: get_words_for_difficulty_no_file no_word_files_def)
  moreover have "cache_nonempty (cache(d \<mapsto> get_fallback_words d))"
    using assms(2) by (simp add: cache_nonempty_def get_fallback_words_nonempty)
  ultimately show ?thesis
    using get_fallback_words_nonempty by blast
next
  case (Some ws)
  with assms(2) show ?thesis
    by (auto simp: get_words_for_difficulty_cached cache_nonempty_def)
qed

lemma load_each_cache_nonempty:
  "no_word_files fs \<Longrightarrow> cache_nonempty cache \<Longrightarrow> cache_nonempty (snd (load_each fs ds cache loaded))"
proof (induction ds arbitrary: cache loaded)
  case Nil
  then show ?case by simp
next
  case (Cons d ds)
  from get_words_for_difficulty_nonempty [OF Cons.prems, of d]
  obtain ws cache' where g: "get_words_for_difficulty fs cache d = (Inr ws, cache')"
    and c: "cache_nonempty cache'" by blast
  show ?case
    using Cons.IH [OF Cons.prems(1) c] by (simp add: g)
qed

lemma time_time_fields [simp]:
  "word_cache (snd (time_time e st)) = word_cache st"
  "sources_loaded (snd (time_time e st)) = sources_loaded st"
  "allow_phrases (snd (time_time e st)) = allow_phrases st"
  "rng (snd (time_time e st)) = rng st"
  "session_buffer_percentage (snd (time_time e st)) = session_buffer_percentage st"
  by (simp_all add: time_time_def)

lemma load_each_loaded:
  "no_word_files fs \<Longrightarrow> cache_nonempty cache \<Longrightarrow> loaded \<noteq> [] \<or> ds \<noteq> [] \<Longrightarrow>
   fst (load_each fs ds cache loaded) \<noteq> []"
proof (induction ds arbitrary: cache loaded)
  case Nil
  then show ?case by simp
next
  case (Cons d ds)
  from get_words_for_difficulty_nonempty [OF Cons.prems(1,2), of d]
  obtain ws cache' where g: "get_words_for_difficulty fs cache d = (Inr ws, cache')"
    and w: "ws \<noteq> []" and c: "cache_nonempty cache'" by blast
  show ?case
    using Cons.IH [OF Cons.prems(1) c, of "loaded @ [d]"] by (simp add: g w)
qed

lemma get_words_no_files:
  assumes "no_word_files (files e)" and "cache_nonempty (word_cache st)"
  shows "\<exists>ws st'. get_words e st d = (Inr ws, st') \<and> ws \<noteq> []"
proof -
  obtain u st1 where en: "ensure_sources_loaded e st = (Inr u, st1)"
    and c1: "cache_nonempty (word_cache st1)"
  proof (cases "sources_loaded st")
    case True
    then have "ensure_sources_loaded e st = (Inr (), st)"
      by (simp add: ensure_sources_loaded_def)
    with assms(2) that show ?thesis by blast
  next
    case False
    obtain loaded cache' where l: "load_each (files e) all_difficulties (word_cache st) [] = (loaded, cache')"
      by (cases "load_each (files e) all_difficulties (word_cache st) []")
    have c: "cache_nonempty cache'"
      using load_each_cache_nonempty [OF assms, of all_difficulties "[]"] l by simp
    have n: "loaded \<noteq> []"
      using load_each_loaded [OF assms, of "[]" all_difficulties] l by (simp add: all_difficulties_def)
    have "ensure_sources_loaded e st =
            (Inr (), st\<lparr>allow_phrases := allow_phrases st, word_cache := cache', sources_loaded := True\<rparr>)"
      using False l n by (simp add: ensure_sources_loaded_def load_default_sources_def)
    with c that show ?thesis by force
  qed
  from get_words_for_difficulty_nonempty [OF assms(1) c1, of d]
  obtain ws cache' where "get_words_for_difficulty (files e) (word_cache st1) d = (Inr ws, cache')"
    and "ws \<noteq> []" by blast
  with en show ?thesis
    by (simp add: get_words_def)
qed

lemma generate_words_has_words:
  assumes "no_word_files (files e)" and "cache_nonempty (word_cache st)"
  shows "fst (generate_words ops e st d n) \<noteq> Inl (RuntimeError ''No words available for difficulty'')"
proof -
  obtain t st0 where tt: "time_time e st = (t, st0)"
    by (cases "time_time e st")
  then have "word_cache st0 = word_cache st"
    using time_time_fields(1) [of e st] by simp
  with assms get_words_no_files [of e st0 d]
  obtain ws st1 where "get_words e st0 d = (Inr ws, st1)" and "ws \<noteq> []"
    by auto
  then show ?thesis
    using tt by (simp add: generate_words_def split: option.splits prod.splits)
qed

text \<open>
  Claim C10, as stated, fails: a word file that exists and has no entry (it is empty, or
  holds only blank lines and comments) is loaded, cached and returned as the empty list,
  and \<open>generate_words\<close> then raises its error for a difficulty without words.
\<close>

theorem get_words_for_difficulty_empty_file:
  "fst (get_words_for_difficulty (files empty_simple_file) Map.empty SIMPLE) = Inr [] \<and>
   fst (generate_words first_rng empty_simple_file (WordGenerator first_rng 0) SIMPLE 5) =
     Inl (RuntimeError ''No words available for difficulty'')"
  by code_simp

text \<open>
  Claim C10, amended. A cached list is returned as it is. When nothing is cached for the
  difficulty and no word file exists at any of its three search paths,
  \<open>get_words_for_difficulty\<close> returns and caches the built-in fallback list, which is
  not empty for any difficulty. When no word file exists at all and no cached list is
  empty, \<open>generate_words\<close> never raises its error for a difficulty without words.
\<close>

theorem get_words_for_difficulty_fallback:
  "(cache d = Some ws \<longrightarrow> get_words_for_difficulty fs cache d = (Inr ws, cache)) \<and>
   (cache d = None \<and> (\<forall>p\<in>set (search_paths d). fs p = None) \<longrightarrow>
      get_words_for_difficulty fs cache d =
        (Inr (get_fallback_words d), cache(d \<mapsto> get_fallback_words d))) \<and>
   get_fallback_words d \<noteq> [] \<and>
   (no_word_files (files e) \<and> cache_nonempty (word_cache st) \<longrightarrow>
      fst (generate_words ops e st d n) \<noteq> Inl (RuntimeError ''No words available for difficulty''))"
proof (intro conjI impI)
  show "get_fallback_words d \<noteq> []"
    by (rule get_fallback_words_nonempty)
next
  assume "cache d = Some ws"
  then show "get_words_for_difficulty fs cache d = (Inr ws, cache)"
    by (rule get_words_for_difficulty_cached)
next
  assume "cache d = None \<and> (\<forall>p\<in>set (search_paths d). fs p = None)"
  then show "get_words_for_difficulty fs cache d =
      (Inr (get_fallback_words d), cache(d \<mapsto> get_fallback_words d))"
    by (simp add: get_words_for_difficulty_no_file)
next
  assume "no_word_files (files e) \<and> cache_nonempty (word_cache st)"
  then show "fst (generate_words ops e st d n) \<noteq> Inl (RuntimeError ''No words available for difficulty'')"
    by (simp add: generate_words_has_words)
qed

theorem get_words_for_difficulty_fallback_witness:
  "get_words_for_difficulty (files no_files) [HARD \<mapsto> [''x'']] HARD = (Inr [''x''], [HARD \<mapsto> [''x'']]) \<and>
   get_words_for_difficulty (files no_files) Map.empty MEDIUM =
     (Inr (get_fallback_words MEDIUM), [MEDIUM \<mapsto> get_fallback_words MEDIUM]) \<and>
   get_fallback_words MEDIUM \<noteq> [] \<and>
   fst (generate_words first_rng no_files (WordGenerator first_rng 0) MEDIUM 3) \<noteq>
     Inl (RuntimeError ''No words available for difficulty'')"
proof -
  have h1: "[HARD \<mapsto> [''x'']] HARD = Some [''x'']"
    by simp
  have h2: "(Map.empty :: word_cache) MEDIUM = None \<and> (\<forall>p\<in>set (search_paths MEDIUM). files no_files p = None)"
    by (simp add: no_files_def)
  have h3: "no_word_files (files no_files) \<and> cache_nonempty (word_cache (WordGenerator first_rng 0))"
    by (simp add: no_files_def no_word_files_def cache_nonempty_def WordGenerator_def)
  show ?thesis
    using get_words_for_difficulty_fallback [of "[HARD \<mapsto> [''x'']]" HARD "[''x'']" "files no_files"
            no_files "WordGenerator first_rng 0" first_rng 3]
          get_words_for_difficulty_fallback [of "Map.empty" MEDIUM "[]" "files no_files"
            no_files "WordGenerator first_rng 0" first_rng 3]
          h1 h2 h3
    by simp
qed

section \<open>Fixed-count generation\<close>

lemma sample_props:
  assumes "sample_ok ops" and "k \<le> length xs"
  shows "\<exists>js. distinct js \<and> set js \<subseteq> {..< length xs} \<and> length js = k \<and>
              fst (rng_sample ops g xs k) = map (\<lambda>j. xs ! j) js"
  using assms unfolding sample_ok_def by blast

lemma sample_length: "sample_ok ops \<Longrightarrow> k \<le> length xs \<Longrightarrow> length (fst (rng_sample ops g xs k)) = k"
  using sample_props [of ops k xs g] by auto

lemma sample_subset: "sample_ok ops \<Longrightarrow> k \<le> length xs \<Longrightarrow> set (fst (rng_sample ops g xs k)) \<subseteq> set xs"
  using sample_props [of ops k xs g] by (fastforce simp: subset_iff)

lemma map_nth_distinct:
  "distinct xs \<Longrightarrow> distinct js \<Longrightarrow> set js \<subseteq> {..< length xs} \<Longrightarrow> distinct (map (\<lambda>j. xs ! j) js)"
  by (auto simp: distinct_map inj_on_def nth_eq_iff_index_eq subset_iff)

lemma shuffle_length: "shuffle_ok ops \<Longrightarrow> length (fst (rng_shuffle ops g xs)) = length xs"
  unfolding shuffle_ok_def by (metis size_mset)

lemma shuffle_set: "shuffle_ok ops \<Longrightarrow> set (fst (rng_shuffle ops g xs)) = set xs"
  unfolding shuffle_ok_def by (metis set_mset_mset)

lemma draw_batch_length:
  "sample_ok ops \<Longrightarrow> shuffle_ok ops \<Longrightarrow> k \<le> length xs \<Longrightarrow> length (fst (draw_batch ops g xs k)) = k"
  by (simp add: draw_batch_def sample_length shuffle_length)

lemma draw_batch_subset:
  "sample_ok ops \<Longrightarrow> shuffle_ok ops \<Longrightarrow> k \<le> length xs \<Longrightarrow> set (fst (draw_batch ops g xs k)) \<subseteq> set xs"
  by (simp add: draw_batch_def sample_subset shuffle_set)

lemma batches_result:
  assumes "sample_ok ops" and "shuffle_ok ops" and "available \<noteq> []"
  shows "\<exists>sel g'. batches ops available g remaining selected = Some (sel, g') \<and>
           length sel = length selected + remaining \<and> set sel \<subseteq> set selected \<union> set available"
  using assms
proof (induction ops available g remaining selected rule: batches.induct)
  case (1 ops available g remaining selected)
  show ?case
  proof (cases "remaining = 0")
    case True
    then show ?thesis by (subst batches.simps) simp
  next
    case False
    let ?k = "min remaining (length available)"
    obtain batch g' where b: "draw_batch ops g available ?k = (batch, g')"
      by (cases "draw_batch ops g available ?k")
    have len: "length batch = ?k"
      using draw_batch_length [OF "1.prems"(1,2), of ?k available g] b by simp
    have sub: "set batch \<subseteq> set available"
      using draw_batch_subset [OF "1.prems"(1,2), of ?k available g] b by simp
    from "1.IH" [OF False "1.prems"(3) b [symmetric] "1.prems"]
    obtain sel g'' where r: "batches ops available g' (remaining - ?k) (selected @ batch) = Some (sel, g'')"
      and l: "length sel = length (selected @ batch) + (remaining - ?k)"
      and s: "set sel \<subseteq> set (selected @ batch) \<union> set available"
      by blast
    have "batches ops available g remaining selected = Some (sel, g'')"
      using False "1.prems"(3) b r by (subst batches.simps) simp
    moreover have "length sel = length selected + remaining"
      using l len by simp
    moreover have "set sel \<subseteq> set selected \<union> set available"
      using s sub by auto
    ultimately show ?thesis by blast
  qed
qed

lemma select_words_result:
  assumes "sample_ok ops" and "shuffle_ok ops" and "available \<noteq> []"
  shows "\<exists>ws g'. select_words ops g available k = Some (ws, g') \<and> length ws = k \<and>
           set ws \<subseteq> set available \<and>
           (k \<le> length available \<longrightarrow>
              (\<exists>js. distinct js \<and> set js \<subseteq> {..< length available} \<and> ws = map (\<lambda>j. available ! j) js))"
proof (cases "k \<le> length available")
  case True
  obtain ws g' where s: "rng_sample ops g available k = (ws, g')"
    by (cases "rng_sample ops g available k")
  from sample_props [OF assms(1) True, of g] s
  obtain js where "distinct js" "set js \<subseteq> {..< length available}" "length js = k"
    "ws = map (\<lambda>j. available ! j) js" by auto
  moreover from this have "set ws \<subseteq> set available" by auto
  ultimately show ?thesis
    using True s by (auto simp: select_words_def)
next
  case False
  from batches_result [OF assms, of g k "[]"]
  obtain sel g' where b: "batches ops available g k [] = Some (sel, g')"
    and l: "length sel = k" and s: "set sel \<subseteq> set available" by auto
  obtain ws g'' where sh: "rng_shuffle ops g' sel = (ws, g'')"
    by (cases "rng_shuffle ops g' sel")
  have "length ws = k" "set ws \<subseteq> set available"
    using shuffle_length [OF assms(2), of g' sel] shuffle_set [OF assms(2), of g' sel] sh l s by auto
  then show ?thesis
    using False b sh by (simp add: select_words_def)
qed

lemma get_words_clock_reads:
  "fst (get_words e (st\<lparr>clock_reads := k\<rparr>) d) = fst (get_words e st d)"
  by (simp add: get_words_def ensure_sources_loaded_def load_default_sources_def Let_def
      split: prod.splits sum.splits)

lemma more_words_than_pool:
  assumes "set ws \<subseteq> set pool" and "length pool < length ws"
  shows "\<not> distinct ws"
proof
  assume "distinct ws"
  then have "length ws = card (set ws)" by (simp add: distinct_card)
  also have "\<dots> \<le> card (set pool)" using assms(1) by (simp add: card_mono)
  also have "\<dots> \<le> length pool" by (rule card_length)
  finally show False using assms(2) by simp
qed


lemma get_words_caches:
  assumes "get_words e st d = (Inr pool, st1)"
  shows "sources_loaded st1 \<and> word_cache st1 d = Some pool"
proof -
  obtain r st0 where en: "ensure_sources_loaded e st = (r, st0)"
    by (cases "ensure_sources_loaded e st")
  with assms obtain u where r: "r = Inr u"
    by (cases r) (simp_all add: get_words_def)
  have l: "sources_loaded st0"
    using en r by (auto simp: ensure_sources_loaded_def load_default_sources_def Let_def
        split: if_splits prod.splits)
  obtain r' cache' where g: "get_words_for_difficulty (files e) (word_cache st0) d = (r', cache')"
    by (cases "get_words_for_difficulty (files e) (word_cache st0) d")
  with assms en r have eq: "r' = Inr pool" "st1 = st0\<lparr>word_cache := cache'\<rparr>"
    by (simp_all add: get_words_def)
  have "cache' d = Some pool"
    using g eq(1) by (auto simp: get_words_for_difficulty_def Let_def split: option.splits sum.splits)
  with l eq(2) show ?thesis by simp
qed

lemma get_words_loaded:
  "sources_loaded st \<Longrightarrow> word_cache st d = Some pool \<Longrightarrow> get_words e st d = (Inr pool, st)"
  by (simp add: get_words_def ensure_sources_loaded_def get_words_for_difficulty_def)

lemma generate_words_result:
  assumes "sample_ok ops" and "shuffle_ok ops"
    and "fst (get_words e st d) = Inr pool" and "pool \<noteq> []" and "0 < n"
  shows "\<exists>ws st'. generate_words ops e st d n = (Inr ws, st') \<and> int (length ws) = n \<and>
           set ws \<subseteq> set pool \<and>
           (n \<le> int (length pool) \<longrightarrow>
              (\<exists>js. distinct js \<and> set js \<subseteq> {..< length pool} \<and> ws = map (\<lambda>j. pool ! j) js)) \<and>
           sources_loaded st' \<and> word_cache st' d = Some pool"
proof -
  obtain t st0 where tt: "time_time e st = (t, st0)"
    by (cases "time_time e st")
  then have st0: "st0 = st\<lparr>clock_reads := clock_reads st + 1\<rparr>"
    by (simp add: time_time_def)
  have "fst (get_words e st0 d) = Inr pool"
    using assms(3) by (simp add: st0 get_words_clock_reads)
  then obtain st1 where gw: "get_words e st0 d = (Inr pool, st1)"
    by (cases "get_words e st0 d") simp
  note c = get_words_caches [OF gw]
  from select_words_result [OF assms(1,2,4), of "rng st1" "nat n"]
  obtain ws g' where sw: "select_words ops (rng st1) pool (nat n) = Some (ws, g')"
    and len: "length ws = nat n" and sub: "set ws \<subseteq> set pool"
    and pos: "nat n \<le> length pool \<longrightarrow>
          (\<exists>js. distinct js \<and> set js \<subseteq> {..< length pool} \<and> ws = map (\<lambda>j. pool ! j) js)"
    by blast
  obtain t' st2 where tt': "time_time e (st1\<lparr>rng := g'\<rparr>) = (t', st2)"
    by (cases "time_time e (st1\<lparr>rng := g'\<rparr>)")
  then have st2: "sources_loaded st2 \<and> word_cache st2 d = Some pool"
    using c by (auto simp: time_time_def)
  have "generate_words ops e st d n = (Inr ws, log_time (fsub t' t) st2)"
    using assms(4,5) tt gw sw tt' by (simp add: generate_words_def)
  moreover have "sources_loaded (log_time (fsub t' t) st2) \<and> word_cache (log_time (fsub t' t) st2) d = Some pool"
    using st2 by (simp add: log_time_def)
  moreover have "int (length ws) = n"
    using len assms(5) by simp
  moreover have "n \<le> int (length pool) \<longrightarrow>
          (\<exists>js. distinct js \<and> set js \<subseteq> {..< length pool} \<and> ws = map (\<lambda>j. pool ! j) js)"
    using pos assms(5) by auto
  ultimately show ?thesis
    using sub by blast
qed

lemma first_rng_sample_ok: "sample_ok first_rng"
proof -
  have "\<exists>js. distinct js \<and> set js \<subseteq> {..< length xs} \<and> length js = k \<and> take k xs = map (\<lambda>j. xs ! j) js"
    if "k \<le> length xs" for k and xs :: "string list"
  proof (intro exI conjI)
    show "take k xs = map (\<lambda>j. xs ! j) [0 ..< k]"
      using that by (auto simp: list_eq_iff_nth_eq)
  qed (use that in auto)
  then show ?thesis
    by (simp add: sample_ok_def first_rng_def)
qed

lemma first_rng_shuffle_ok: "shuffle_ok first_rng"
  by (simp add: shuffle_ok_def first_rng_def)

lemma no_files_simple_pool: "fst (get_words no_files (WordGenerator first_rng 0) SIMPLE) = Inr base_words"
  by code_simp

text \<open>
  Claim C5, as stated, fails where it says that the words are pairwise distinct whenever
  \<open>count\<close> is at most the pool size: \<open>sample\<close> draws at different positions, and a word
  file may hold the same entry on two lines.
\<close>

theorem generate_words_repeats_pool_entries:
  "fst (get_words repeated_simple_file (WordGenerator first_rng 0) SIMPLE) = Inr [''a'', ''a''] \<and>
   fst (generate_words first_rng repeated_simple_file (WordGenerator first_rng 0) SIMPLE 2) = Inr [''a'', ''a'']"
  by code_simp

text \<open>
  Claim C5, amended. For a difficulty with a non-empty pool, \<open>generate_words\<close> raises
  \<open>ValueError\<close> for \<open>count \<le> 0\<close> and otherwise returns exactly \<open>count\<close> words, all of
  the pool. For \<open>count\<close> up to the pool size they are the entries at pairwise different
  positions of the pool, hence pairwise distinct when no entry of the pool repeats; for
  \<open>count\<close> above the pool size some word appears more than once.
\<close>

theorem generate_words_spec:
  assumes "sample_ok ops" and "shuffle_ok ops"
    and "fst (get_words e st d) = Inr pool" and "pool \<noteq> []"
  shows "(n \<le> 0 \<longrightarrow> fst (generate_words ops e st d n) = Inl ValueError) \<and>
         (0 < n \<longrightarrow>
            (\<exists>ws. fst (generate_words ops e st d n) = Inr ws \<and> int (length ws) = n \<and>
                  set ws \<subseteq> set pool \<and>
                  (n \<le> int (length pool) \<longrightarrow>
                     (\<exists>js. distinct js \<and> set js \<subseteq> {..< length pool} \<and> ws = map (\<lambda>j. pool ! j) js)) \<and>
                  (n \<le> int (length pool) \<and> distinct pool \<longrightarrow> distinct ws) \<and>
                  (int (length pool) < n \<longrightarrow> \<not> distinct ws)))"
proof (intro conjI impI)
  assume "n \<le> 0"
  then show "fst (generate_words ops e st d n) = Inl ValueError"
    by (simp add: generate_words_def)
next
  assume n: "0 < n"
  from generate_words_result [OF assms n]
  obtain ws st' where g: "generate_words ops e st d n = (Inr ws, st')"
    and len: "int (length ws) = n" and sub: "set ws \<subseteq> set pool"
    and pos: "n \<le> int (length pool) \<longrightarrow>
          (\<exists>js. distinct js \<and> set js \<subseteq> {..< length pool} \<and> ws = map (\<lambda>j. pool ! j) js)"
    by blast
  have d1: "n \<le> int (length pool) \<and> distinct pool \<longrightarrow> distinct ws"
    using pos map_nth_distinct by blast
  have d2: "int (length pool) < n \<longrightarrow> \<not> distinct ws"
    using more_words_than_pool [OF sub] len by auto
  show "\<exists>ws. fst (generate_words ops e st d n) = Inr ws \<and> int (length ws) = n \<and>
                  set ws \<subseteq> set pool \<and>
                  (n \<le> int (length pool) \<longrightarrow>
                     (\<exists>js. distinct js \<and> set js \<subseteq> {..< length pool} \<and> ws = map (\<lambda>j. pool ! j) js)) \<and>
                  (n \<le> int (length pool) \<and> distinct pool \<longrightarrow> distinct ws) \<and>
                  (int (length pool) < n \<longrightarrow> \<not> distinct ws)"
    using g len sub pos d1 d2 by auto
qed

theorem generate_words_spec_witness:
  "fst (get_words no_files (WordGenerator first_rng 0) SIMPLE) = Inr base_words \<and>
   fst (generate_words first_rng no_files (WordGenerator first_rng 0) SIMPLE 0) = Inl ValueError \<and>
   (\<exists>ws. fst (generate_words first_rng no_files (WordGenerator first_rng 0) SIMPLE 3) = Inr ws \<and>
         length ws = 3 \<and> distinct ws) \<and>
   (\<exists>ws. fst (generate_words first_rng no_files (WordGenerator first_rng 0) SIMPLE 31) = Inr ws \<and>
         length ws = 31 \<and> \<not> distinct ws)"
proof -
  have ne: "base_words \<noteq> []" and len: "length base_words = 30" and dist: "distinct base_words"
    by (simp_all add: base_words_def)
  note spec = generate_words_spec [OF first_rng_sample_ok first_rng_shuffle_ok no_files_simple_pool ne]
  show ?thesis
    using spec [of 0] spec [of 3] spec [of 31] no_files_simple_pool len dist
    by auto
qed

section \<open>Session-sized generation\<close>

lemma buffer_multiplier_10: "fadd 1 (fdiv (float_of_int 10) 100) = fl (11 / 10)"
  by code_simp

lemma session_word_count_50_59: "session_word_count 10 50 59 = 53"
  by code_simp

lemma claimed_session_word_count_50_59: "claimed_session_word_count 50 59 = 54"
  by code_simp

lemma exact_count_50_59: "max 10 \<lfloor>(50 / 60 * 59 * (11 / 10) :: rat)\<rfloor> = 54"
  by code_simp

text \<open>
  Claim C6, as stated, fails: the code floors twice. For 50 seconds at 59 words per
  minute the base count \<open>int(49.17)\<close> is 49 and \<open>int(49 * 1.1)\<close> is 53, while the single
  floor of the claim gives 54, in floats as in exact arithmetic.
\<close>

theorem generate_for_session_floors_twice:
  "generate_for_session first_rng no_files (WordGenerator first_rng 0) SIMPLE 50 59 =
     generate_words first_rng no_files (WordGenerator first_rng 0) SIMPLE 53 \<and>
   claimed_session_word_count 50 59 = 54 \<and>
   max 10 \<lfloor>(50 / 60 * 59 * (11 / 10) :: rat)\<rfloor> = 54"
  using exact_count_50_59
  by (simp add: generate_for_session_def WordGenerator_def session_word_count_50_59
      claimed_session_word_count_50_59)

text \<open>
  Claim C6, amended. With the buffer of 10 percent that the constructor sets,
  \<open>generate_for_session\<close> raises \<open>ValueError\<close> for a non-positive duration or target, and
  otherwise asks \<open>generate_words\<close> for \<open>max(10, int(int(duration_seconds / 60.0 * target_wpm) * 1.1))\<close>
  words, every operation rounded as a float: the base word count is truncated to an
  integer before the buffer is applied, and the product is truncated again.
\<close>

theorem generate_for_session_spec:
  assumes "session_buffer_percentage st = 10"
  shows "(seconds \<le> 0 \<or> target_wpm \<le> 0 \<longrightarrow>
            generate_for_session ops e st d seconds target_wpm = (Inl ValueError, st)) \<and>
         (0 < seconds \<and> 0 < target_wpm \<longrightarrow>
            generate_for_session ops e st d seconds target_wpm =
              generate_words ops e st d
                (max 10 (int_of_float
                   (fmul (float_of_int (int_of_float (fmul (fdiv (float_of_int seconds) 60)
                                                            (float_of_int target_wpm))))
                         (fl (11 / 10))))))"
  using assms
  by (auto simp: generate_for_session_def session_word_count_def Let_def buffer_multiplier_10 max.commute)

theorem generate_for_session_spec_witness:
  "session_buffer_percentage (WordGenerator first_rng 0) = 10 \<and>
   generate_for_session first_rng no_files (WordGenerator first_rng 0) SIMPLE 0 40 =
     (Inl ValueError, WordGenerator first_rng 0) \<and>
   generate_for_session first_rng no_files (WordGenerator first_rng 0) SIMPLE 11 300 =
     generate_words first_rng no_files (WordGenerator first_rng 0) SIMPLE 59"
proof -
  have b: "session_buffer_percentage (WordGenerator first_rng 0) = 10"
    by (simp add: WordGenerator_def)
  have c: "max 10 (int_of_float
                   (fmul (float_of_int (int_of_float (fmul (fdiv (float_of_int 11) 60)
                                                            (float_of_int 300))))
                         (fl (11 / 10)))) = 59"
    by code_simp
  show ?thesis
    using generate_for_session_spec [OF b, of 0 40 first_rng no_files SIMPLE]
          generate_for_session_spec [OF b, of 11 300 first_rng no_files SIMPLE] b c
    by simp
qed

section \<open>Paragraph generation\<close>

declare pack_line.simps [simp del]

lemma pack_line_index:
  "i \<le> length av \<Longrightarrow> i \<le> snd (pack_line av m i cur) \<and> snd (pack_line av m i cur) \<le> length av"
proof (induction av m i cur rule: pack_line.induct)
  case (1 av m i cur)
  show ?case
  proof (cases "i < length av \<and> int (length (if cur \<noteq> [] then cur @ '' '' @ av ! i else av ! i)) \<le> m")
    case True
    then have "i + 1 \<le> length av" by simp
    from "1.IH" [OF _ refl refl _ this] True
    show ?thesis
      by (subst (1 2) pack_line.simps) (simp add: Let_def)
  next
    case False
    then show ?thesis
      using "1.prems" by (subst (1 2) pack_line.simps) (auto simp: Let_def)
  qed
qed

lemma pack_line_length:
  "int (length cur) \<le> m \<Longrightarrow> int (length (fst (pack_line av m i cur))) \<le> m"
proof (induction av m i cur rule: pack_line.induct)
  case (1 av m i cur)
  show ?case
  proof (cases "i < length av \<and> int (length (if cur \<noteq> [] then cur @ '' '' @ av ! i else av ! i)) \<le> m")
    case True
    from "1.IH" [OF _ refl refl] True
    show ?thesis
      by (subst pack_line.simps) (simp add: Let_def)
  next
    case False
    then show ?thesis
      using "1.prems" by (subst pack_line.simps) (auto simp: Let_def)
  qed
qed

lemma pack_line_nonempty:
  "cur \<noteq> [] \<Longrightarrow> fst (pack_line av m i cur) \<noteq> []"
proof (induction av m i cur rule: pack_line.induct)
  case (1 av m i cur)
  show ?case
  proof (cases "i < length av \<and> int (length (if cur \<noteq> [] then cur @ '' '' @ av ! i else av ! i)) \<le> m")
    case True
    from "1.IH" [OF _ refl refl] True "1.prems"
    show ?thesis
      by (subst pack_line.simps) (simp add: Let_def)
  next
    case False
    then show ?thesis
      using "1.prems" by (subst pack_line.simps) (auto simp: Let_def)
  qed
qed

lemma pack_line_empty_start:
  assumes "i < length av" and "av ! i \<noteq> []" and "fst (pack_line av m i []) = []"
  shows "snd (pack_line av m i []) = i \<and> m < int (length (av ! i))"
proof (cases "int (length (av ! i)) \<le> m")
  case True
  then have "pack_line av m i [] = pack_line av m (i + 1) (av ! i)"
    using assms(1) by (subst pack_line.simps) (simp add: Let_def)
  with pack_line_nonempty [OF assms(2), of av m "i + 1"] assms(3) show ?thesis by simp
next
  case False
  then show ?thesis
    using assms(1) by (subst pack_line.simps) (simp add: Let_def)
qed

lemma line_step:
  assumes "i < length av" and "\<forall>w\<in>set av. w \<noteq> []" and "set av \<subseteq> set pool" and "0 < m"
  shows "\<exists>cur i2. force_word av (pack_line av m i []) = (cur, i2) \<and> cur \<noteq> [] \<and>
           i2 \<le> length av \<and> line_fits pool m cur"
proof -
  obtain packed i1 where p: "pack_line av m i [] = (packed, i1)"
    by (cases "pack_line av m i []")
  have w: "av ! i \<noteq> []" "av ! i \<in> set pool"
    using assms(1,2,3) by (auto simp: subset_iff)
  show ?thesis
  proof (cases "packed = []")
    case True
    with pack_line_empty_start [OF assms(1) w(1), of m] p
    have "i1 = i" and "m < int (length (av ! i))" by simp_all
    then have "force_word av (pack_line av m i []) = (av ! i, i + 1)"
      using p True assms(1) by (simp add: force_word_def)
    moreover have "line_fits pool m (av ! i)"
      using w(2) \<open>m < int (length (av ! i))\<close> by (simp add: line_fits_def)
    ultimately show ?thesis
      using w(1) assms(1) by simp
  next
    case False
    then have "force_word av (pack_line av m i []) = (packed, i1)"
      using p by (simp add: force_word_def)
    moreover have "i1 \<le> length av"
      using pack_line_index [of i av m "[]"] assms(1) p by simp
    moreover have "line_fits pool m packed"
      using pack_line_length [of "[]" m av i] assms(4) p by (simp add: line_fits_def)
    ultimately show ?thesis
      using False by simp
  qed
qed

lemma format_lines_result:
  assumes ok: "sample_ok ops" "shuffle_ok ops"
    and pool: "pool \<noteq> []" "\<forall>w\<in>set pool. w \<noteq> []"
    and m: "0 < m" and epl: "1 \<le> epl"
  shows "sources_loaded st \<Longrightarrow> word_cache st d = Some pool \<Longrightarrow> set av \<subseteq> set pool \<Longrightarrow>
         0 \<le> k \<Longrightarrow> k \<le> lines \<Longrightarrow> (k < lines \<longrightarrow> i < length av) \<Longrightarrow>
         \<forall>l\<in>set formatted. line_fits pool m l \<Longrightarrow> n = nat (lines - k) \<Longrightarrow>
         \<exists>ls st'. format_lines ops e d lines m epl [k .. lines - 1] st av i formatted = (Inr ls, st') \<and>
           int (length ls) = int (length formatted) + (lines - k) \<and>
           (\<forall>l\<in>set ls. line_fits pool m l)"
proof (induction n arbitrary: k st av i formatted)
  case 0
  then have "k = lines" by simp
  then have "[k .. lines - 1] = []" by simp
  with 0 \<open>k = lines\<close> show ?case by simp
next
  case (Suc n)
  then have k: "k < lines" by simp
  then have up: "[k .. lines - 1] = k # [k + 1 .. lines - 1]"
    by (simp add: upto_rec1)
  have i: "i < length av" using Suc.prems(6) k by simp
  have words: "\<forall>w\<in>set av. w \<noteq> []"
    using Suc.prems(3) pool(2) by auto
  from line_step [OF i words Suc.prems(3) m]
  obtain cur i2 where f: "force_word av (pack_line av m i []) = (cur, i2)"
    and cur: "cur \<noteq> []" and i2: "i2 \<le> length av" and fits: "line_fits pool m cur"
    by blast
  have fm: "\<forall>l\<in>set (formatted @ [cur]). line_fits pool m l"
    using Suc.prems(7) fits by simp
  have n: "n = nat (lines - (k + 1))" using Suc.prems(8) by simp
  show ?case
  proof (cases "length av \<le> i2 \<and> k < lines - 1")
    case True
    have cnt: "0 < epl * (lines - k)"
      using epl k by simp
    have gw: "fst (get_words e st d) = Inr pool"
      using Suc.prems(1,2) by (simp add: get_words_loaded)
    from generate_words_result [OF ok gw pool(1) cnt]
    obtain more st' where g: "generate_words ops e st d (epl * (lines - k)) = (Inr more, st')"
      and len: "int (length more) = epl * (lines - k)" and sub: "set more \<subseteq> set pool"
      and st': "sources_loaded st'" "word_cache st' d = Some pool"
      by blast
    have "more \<noteq> []" using len cnt by auto
    then have i': "k + 1 < lines \<longrightarrow> i2 < length (av @ more)"
      using i2 by (cases more) simp_all
    have sub': "set (av @ more) \<subseteq> set pool"
      using Suc.prems(3) sub by simp
    from Suc.IH [OF st' sub' _ _ i' fm n] k
    obtain ls st'' where r: "format_lines ops e d lines m epl [k + 1 .. lines - 1] st' (av @ more) i2 (formatted @ [cur]) = (Inr ls, st'')"
      and l: "int (length ls) = int (length (formatted @ [cur])) + (lines - (k + 1))"
      and a: "\<forall>l\<in>set ls. line_fits pool m l"
      using Suc.prems(4) by auto
    have "format_lines ops e d lines m epl [k .. lines - 1] st av i formatted = (Inr ls, st'')"
      using True cur f g r by (simp add: up)
    moreover have "int (length ls) = int (length formatted) + (lines - k)"
      using l by simp
    ultimately show ?thesis using a by blast
  next
    case False
    then have i': "k + 1 < lines \<longrightarrow> i2 < length av" by auto
    from Suc.IH [OF Suc.prems(1,2,3) _ _ i' fm n] k
    obtain ls st'' where r: "format_lines ops e d lines m epl [k + 1 .. lines - 1] st av i2 (formatted @ [cur]) = (Inr ls, st'')"
      and l: "int (length ls) = int (length (formatted @ [cur])) + (lines - (k + 1))"
      and a: "\<forall>l\<in>set ls. line_fits pool m l"
      using Suc.prems(4) by auto
    have "format_lines ops e d lines m epl [k .. lines - 1] st av i formatted = (Inr ls, st'')"
      using False cur f r by (auto simp: up)
    moreover have "int (length ls) = int (length formatted) + (lines - k)"
      using l by simp
    ultimately show ?thesis using a by blast
  qed
qed

text \<open>The loader never produces the empty string as an entry.\<close>

lemma read_line_entries:
  "\<forall>w\<in>set words. w \<noteq> [] \<Longrightarrow> \<forall>w\<in>set (read_line allow raw words). w \<noteq> []"
  by (auto simp: read_line_def Let_def)

lemma fold_read_line_entries:
  "\<forall>w\<in>set words. w \<noteq> [] \<Longrightarrow> \<forall>w\<in>set (fold (read_line allow) lines words). w \<noteq> []"
proof (induction lines arbitrary: words)
  case Nil
  then show ?case by simp
next
  case (Cons raw lines)
  show ?case
    using Cons.IH [OF read_line_entries [OF Cons.prems, of allow raw]] by simp
qed

lemma try_encodings_entries:
  "\<forall>w\<in>set words. w \<noteq> [] \<Longrightarrow> try_encodings f allow encs words = Inr ws \<Longrightarrow> \<forall>w\<in>set ws. w \<noteq> []"
proof (induction encs arbitrary: words)
  case Nil
  then show ?case by simp
next
  case (Cons enc encs)
  obtain lines ending where r: "f enc = (lines, ending)"
    by (cases "f enc")
  note w = fold_read_line_entries [OF Cons.prems(1), of allow lines]
  show ?case
  proof (cases ending)
    case EndOfFile
    with Cons.prems(2) r w show ?thesis by auto
  next
    case UnicodeDecodeError
    with Cons.prems(2) r Cons.IH [OF w] show ?thesis by simp
  next
    case PermissionDenied
    with Cons.prems(2) r show ?thesis by simp
  next
    case OtherException
    with Cons.prems(2) r Cons.IH [OF w] show ?thesis by simp
  qed
qed

lemma load_file_entries: "load_file fs path allow = Inr ws \<Longrightarrow> \<forall>w\<in>set ws. w \<noteq> []"
  using try_encodings_entries [of "[]"]
  by (auto simp: load_file_def split: option.splits)

lemma try_paths_entries: "try_paths fs ps = Some (Inr ws) \<Longrightarrow> \<forall>w\<in>set ws. w \<noteq> []"
proof (induction ps)
  case Nil
  then show ?case by simp
next
  case (Cons p ps)
  then show ?case
    using load_file_entries [of fs p True]
    by (cases "load_file fs p True") (auto split: if_splits)
qed

lemma get_fallback_words_entries: "\<forall>w\<in>set (get_fallback_words d). w \<noteq> []"
  by (cases d) (simp_all add: base_words_def medium_words_def hard_words_def extra_hard_words_def)

lemma cache_entries_ok_update:
  "cache_entries_ok cache \<Longrightarrow> \<forall>w\<in>set ws. w \<noteq> [] \<Longrightarrow> cache_entries_ok (cache(d \<mapsto> ws))"
  by (auto simp: cache_entries_ok_def)

lemma get_words_for_difficulty_entries:
  assumes "cache_entries_ok cache" and "get_words_for_difficulty fs cache d = (r, cache')"
  shows "cache_entries_ok cache' \<and> (\<forall>ws. r = Inr ws \<longrightarrow> (\<forall>w\<in>set ws. w \<noteq> []))"
proof (cases "cache d")
  case (Some ws)
  with assms show ?thesis
    by (auto simp: get_words_for_difficulty_def cache_entries_ok_def)
next
  case None
  obtain filename where fm: "file_mappings d = Some filename"
    using file_mappings_total by blast
  show ?thesis
  proof (cases "try_paths fs (possible_paths filename)")
    case n: None
    with assms(2) None fm have "r = Inr (get_fallback_words d)"
      and "cache' = cache(d \<mapsto> get_fallback_words d)"
      by (simp_all add: get_words_for_difficulty_def Let_def)
    then show ?thesis
      using cache_entries_ok_update [OF assms(1) get_fallback_words_entries, of d d]
        get_fallback_words_entries [of d] by simp
  next
    case (Some res)
    show ?thesis
    proof (cases res)
      case (Inl err)
      with assms None fm Some show ?thesis
        by (auto simp: get_words_for_difficulty_def)
    next
      case (Inr ws)
      with Some try_paths_entries have "\<forall>w\<in>set ws. w \<noteq> []" by blast
      moreover from assms(2) None fm Some Inr have "r = Inr ws" and "cache' = cache(d \<mapsto> ws)"
        by (simp_all add: get_words_for_difficulty_def)
      ultimately show ?thesis
        using cache_entries_ok_update [OF assms(1), of ws d] by simp
    qed
  qed
qed

lemma load_each_entries:
  "cache_entries_ok cache \<Longrightarrow> cache_entries_ok (snd (load_each fs ds cache loaded))"
proof (induction ds arbitrary: cache loaded)
  case Nil
  then show ?case by simp
next
  case (Cons d ds)
  obtain r cache' where g: "get_words_for_difficulty fs cache d = (r, cache')"
    by (cases "get_words_for_difficulty fs cache d")
  from get_words_for_difficulty_entries [OF Cons.prems g]
  have c: "cache_entries_ok cache'" by simp
  show ?case
    using Cons.IH [OF c] g by (cases r) simp_all
qed

lemma get_words_entries:
  assumes "cache_entries_ok (word_cache st)" and "fst (get_words e st d) = Inr pool"
  shows "\<forall>w\<in>set pool. w \<noteq> []"
proof -
  obtain r st0 where en: "ensure_sources_loaded e st = (r, st0)"
    by (cases "ensure_sources_loaded e st")
  have c0: "cache_entries_ok (word_cache st0)"
  proof (cases "sources_loaded st")
    case True
    with en assms(1) show ?thesis by (simp add: ensure_sources_loaded_def)
  next
    case False
    obtain loaded cache' where l: "load_each (files e) all_difficulties (word_cache st) [] = (loaded, cache')"
      by (cases "load_each (files e) all_difficulties (word_cache st) []")
    have "cache_entries_ok cache'"
      using load_each_entries [OF assms(1), of "files e" all_difficulties "[]"] l by simp
    with en False l show ?thesis
      by (auto simp: ensure_sources_loaded_def load_default_sources_def Let_def split: if_splits)
  qed
  obtain r' cache' where g: "get_words_for_difficulty (files e) (word_cache st0) d = (r', cache')"
    by (cases "get_words_for_difficulty (files e) (word_cache st0) d")
  have "r' = Inr pool"
    using assms(2) en g by (cases r) (simp_all add: get_words_def)
  with get_words_for_difficulty_entries [OF c0 g] show ?thesis by simp
qed

text \<open>
  Claim C9. For positive \<open>lines\<close> and \<open>max_line_chars\<close> and a difficulty with a non-empty
  pool, \<open>generate_paragraph\<close> returns exactly \<open>lines\<close> strings, and each of them is at
  most \<open>max_line_chars\<close> long or is a single entry of the pool that alone exceeds the
  limit. The generator's cache holds no empty string, as in every state that the
  constructor and the loader produce.
\<close>

theorem generate_paragraph_spec:
  assumes "sample_ok ops" and "shuffle_ok ops"
    and "cache_entries_ok (word_cache st)"
    and "fst (get_words e st d) = Inr pool" and "pool \<noteq> []"
    and "0 < lines" and "0 < max_line_chars"
  shows "\<exists>ls. fst (generate_paragraph ops e st d lines max_line_chars) = Inr ls \<and>
           int (length ls) = lines \<and> (\<forall>l\<in>set ls. line_fits pool max_line_chars l)"
proof -
  have words: "\<forall>w\<in>set pool. w \<noteq> []"
    using get_words_entries [OF assms(3,4)] .
  obtain t st0 where tt: "time_time e st = (t, st0)"
    by (cases "time_time e st")
  then have st0: "st0 = st\<lparr>clock_reads := clock_reads st + 1\<rparr>"
    by (simp add: time_time_def)
  have gw0: "fst (get_words e st0 d) = Inr pool"
    using assms(4) by (simp add: st0 get_words_clock_reads)
  define epl where "epl = max 1 (max_line_chars div 6)"
  define bw where "bw = int_of_float (fmul (float_of_int (lines * epl)) (3 / 2))"
  have epl: "1 \<le> epl" by (simp add: epl_def)
  have "1 * 1 \<le> lines * epl"
    using assms(6) epl by (intro mult_mono) simp_all
  then have "1 \<le> lines * epl" by simp
  then have bw: "0 < bw"
    using buffer_words_positive [of "lines * epl"] by (simp add: bw_def)
  from generate_words_result [OF assms(1,2) gw0 assms(5) bw]
  obtain av st1 where g: "generate_words ops e st0 d bw = (Inr av, st1)"
    and len: "int (length av) = bw" and sub: "set av \<subseteq> set pool"
    and st1: "sources_loaded st1" "word_cache st1 d = Some pool"
    by blast
  have i: "0 < lines \<longrightarrow> 0 < length av"
    using len bw by auto
  have "\<exists>ls st'. format_lines ops e d lines max_line_chars epl [0 .. lines - 1] st1 av 0 [] = (Inr ls, st') \<and>
           int (length ls) = int (length ([]::string list)) + (lines - 0) \<and>
           (\<forall>l\<in>set ls. line_fits pool max_line_chars l)"
    using assms(6) i
    by (intro format_lines_result [OF assms(1,2,5) words assms(7) epl st1 sub]) simp_all
  then obtain ls st2 where f: "format_lines ops e d lines max_line_chars epl [0 .. lines - 1] st1 av 0 [] = (Inr ls, st2)"
    and l: "int (length ls) = lines" and a: "\<forall>l\<in>set ls. line_fits pool max_line_chars l"
    by auto
  have "fst (generate_paragraph ops e st d lines max_line_chars) = Inr ls"
    using assms(6,7) tt g f
    by (simp add: generate_paragraph_def Let_def epl_def [symmetric] bw_def [symmetric] split: prod.splits)
  with l a show ?thesis by blast
qed

theorem generate_paragraph_spec_witness:
  "fst (get_words no_files (WordGenerator first_rng 0) SIMPLE) = Inr base_words \<and>
   (\<exists>ls. fst (generate_paragraph first_rng no_files (WordGenerator first_rng 0) SIMPLE 3 12) = Inr ls \<and>
         int (length ls) = 3 \<and> list_all (line_fits base_words 12) ls)"
proof -
  have ne: "base_words \<noteq> []"
    by (simp add: base_words_def)
  have c: "cache_entries_ok (word_cache (WordGenerator first_rng 0))"
    by (simp add: cache_entries_ok_def WordGenerator_def)
  show ?thesis
    using generate_paragraph_spec [OF first_rng_sample_ok first_rng_shuffle_ok c no_files_simple_pool ne, of 3 12]
      no_files_simple_pool
    by (simp add: list_all_iff)
qed

section \<open>Mixed generation\<close>

lemma tied_weights_sum: "sum_floats [1 / 2, 1 / 2] = 1"
  by code_simp

lemma tied_weights_normalized: "fdiv (1 / 2) 1 = 1 / 2"
  by code_simp

lemma tied_weights_count: "int_of_float (fmul (float_of_int 3) (1 / 2)) = 1"
  by code_simp

lemma tied_weights_fraction: "fractional_part 3 (1 / 2) = 1 / 2"
  by code_simp

text \<open>
  Claim C2 says that \<open>generate_mixed\<close> returns exactly \<open>total_count\<close> words for every
  valid weight map, the leftover of the flooring going to the largest fractional parts.
  For the weights \<open>{SIMPLE: 0.5, MEDIUM: 0.5}\<close> and a total of 3 each share is
  \<open>int(1.5) = 1\<close>, one word is left over and both fractional parts are 0.5: sorting the
  pairs compares the two \<open>Difficulty\<close> members and the call ends in \<open>TypeError\<close>, for
  every random source, environment and generator state.
\<close>

theorem generate_mixed_tied_fractions:
  "fst (generate_mixed ops e st [(Level SIMPLE, 1 / 2), (Level MEDIUM, 1 / 2)] 3) = Inl TypeError"
  by (simp add: generate_mixed_def tied_weights_sum tied_weights_normalized tied_weights_count
      tied_weights_fraction allocate_counts_def distribute_remaining_def sort_reverse_def Let_def
      split: prod.splits)

section \<open>Reproducibility\<close>

text \<open>
  The clock reaches only the log: a method run against another clock, from a state with
  another log, returns the same value and leaves the same state up to the log.
\<close>

lemma relog_simps [simp]:
  "fst (relog l p) = fst p"
  "snd (relog l p) = (snd p)\<lparr>log_times := l\<rparr>"
  "relog l (r, st) = (r, st\<lparr>log_times := l\<rparr>)"
  by (simp_all add: relog_def)

lemma time_time_relog:
  "snd (time_time e2 (st\<lparr>log_times := l\<rparr>)) = (snd (time_time e1 st))\<lparr>log_times := l\<rparr>"
  by (simp add: time_time_def)

lemma get_words_relog:
  assumes "files e1 = files e2"
  shows "get_words e2 (st\<lparr>log_times := l\<rparr>) d = relog l (get_words e1 st d)"
  using assms
  by (simp add: get_words_def ensure_sources_loaded_def load_default_sources_def Let_def relog_def
      split: prod.splits sum.splits)

lemma generate_words_relog:
  assumes "files e1 = files e2"
  shows "\<exists>l'. generate_words ops e2 (st\<lparr>log_times := l\<rparr>) d n = relog l' (generate_words ops e1 st d n)"
proof (cases "n \<le> 0")
  case True
  then show ?thesis
    by (auto simp: generate_words_def relog_def)
next
  case False
  obtain t1 st0 where t1: "time_time e1 st = (t1, st0)"
    by (cases "time_time e1 st")
  obtain t2 st0' where t2: "time_time e2 (st\<lparr>log_times := l\<rparr>) = (t2, st0')"
    by (cases "time_time e2 (st\<lparr>log_times := l\<rparr>)")
  have st0': "st0' = st0\<lparr>log_times := l\<rparr>"
    using time_time_relog [where ?e2.0 = e2 and st = st and l = l and ?e1.0 = e1] t1 t2 by simp
  obtain r st1 where g: "get_words e1 st0 d = (r, st1)"
    by (cases "get_words e1 st0 d")
  then have g': "get_words e2 st0' d = (r, st1\<lparr>log_times := l\<rparr>)"
    using get_words_relog [OF assms, where st = st0 and l = l and d = d] by (simp add: st0')
  show ?thesis
  proof (cases r)
    case (Inl err)
    with False t1 t2 g g' show ?thesis
      by (auto simp: generate_words_def)
  next
    case (Inr av)
    show ?thesis
    proof (cases "av = []")
      case True
      with False t1 t2 g g' Inr show ?thesis
        by (auto simp: generate_words_def)
    next
      case av: False
      show ?thesis
      proof (cases "select_words ops (rng st1) av (nat n)")
        case None
        with False t1 t2 g g' Inr av show ?thesis
          by (auto simp: generate_words_def)
      next
        case (Some p)
        obtain ws g2 where p: "p = (ws, g2)" by (cases p)
        obtain u1 st2 where u1: "time_time e1 (st1\<lparr>rng := g2\<rparr>) = (u1, st2)"
          by (cases "time_time e1 (st1\<lparr>rng := g2\<rparr>)")
        obtain u2 st2' where u2: "time_time e2 (st1\<lparr>rng := g2, log_times := l\<rparr>) = (u2, st2')"
          by (cases "time_time e2 (st1\<lparr>rng := g2, log_times := l\<rparr>)")
        have st2': "st2' = st2\<lparr>log_times := l\<rparr>"
          using time_time_relog [where ?e2.0 = e2 and st = "st1\<lparr>rng := g2\<rparr>" and l = l and ?e1.0 = e1] u1 u2 by simp
        have a: "generate_words ops e1 st d n = (Inr ws, log_time (fsub u1 t1) st2)"
          using False t1 g Inr av Some p u1 by (simp add: generate_words_def)
        have swap: "st1\<lparr>log_times := l, rng := g2\<rparr> = st1\<lparr>rng := g2, log_times := l\<rparr>"
          by simp
        have b: "generate_words ops e2 (st\<lparr>log_times := l\<rparr>) d n = (Inr ws, log_time (fsub u2 t2) st2')"
          using False t2 g' Inr av Some p u2 by (simp add: generate_words_def swap)
        show ?thesis
          unfolding a b st2' by (auto simp: log_time_def)
      qed
    qed
  qed
qed

lemma generate_for_session_relog:
  assumes "files e1 = files e2"
  shows "\<exists>l'. generate_for_session ops e2 (st\<lparr>log_times := l\<rparr>) d s w =
               relog l' (generate_for_session ops e1 st d s w)"
  using generate_words_relog [OF assms, where st = st and l = l]
  by (auto simp: generate_for_session_def relog_def)

lemma generate_for_time_selection_relog:
  assumes "files e1 = files e2"
  shows "\<exists>l'. generate_for_time_selection ops e2 (st\<lparr>log_times := l\<rparr>) d minutes =
               relog l' (generate_for_time_selection ops e1 st d minutes)"
proof (cases "minutes \<in> set time_options")
  case False
  then show ?thesis
    by (auto simp: generate_for_time_selection_def relog_def)
next
  case True
  obtain t1 st0 where t1: "time_time e1 st = (t1, st0)"
    by (cases "time_time e1 st")
  obtain t2 st0' where t2: "time_time e2 (st\<lparr>log_times := l\<rparr>) = (t2, st0')"
    by (cases "time_time e2 (st\<lparr>log_times := l\<rparr>)")
  have st0': "st0' = st0\<lparr>log_times := l\<rparr>"
    using time_time_relog [where ?e2.0 = e2 and st = st and l = l and ?e1.0 = e1] t1 t2 by simp
  show ?thesis
  proof (cases "calculate_word_count_for_time minutes")
    case (Inl err)
    with True t1 t2 st0' show ?thesis
      by (auto simp: generate_for_time_selection_def)
  next
    case (Inr n)
    obtain r st1 where g: "generate_words ops e1 st0 d n = (r, st1)"
      by (cases "generate_words ops e1 st0 d n")
    from generate_words_relog [OF assms, where st = st0 and l = l and ops = ops and d = d and n = n]
    obtain l1 where g': "generate_words ops e2 st0' d n = (r, st1\<lparr>log_times := l1\<rparr>)"
      using g by (auto simp: st0')
    show ?thesis
    proof (cases r)
      case e: (Inl err)
      with True t1 t2 Inr g g' show ?thesis
        by (auto simp: generate_for_time_selection_def)
    next
      case w: (Inr ws)
      obtain u1 st2 where u1: "time_time e1 st1 = (u1, st2)"
        by (cases "time_time e1 st1")
      obtain u2 st2' where u2: "time_time e2 (st1\<lparr>log_times := l1\<rparr>) = (u2, st2')"
        by (cases "time_time e2 (st1\<lparr>log_times := l1\<rparr>)")
      have st2': "st2' = st2\<lparr>log_times := l1\<rparr>"
        using time_time_relog [where ?e2.0 = e2 and st = st1 and l = l1 and ?e1.0 = e1] u1 u2 by simp
      have a: "generate_for_time_selection ops e1 st d minutes = (Inr ws, log_time (fsub u1 t1) st2)"
        using True t1 Inr g w u1 by (simp add: generate_for_time_selection_def)
      have b: "generate_for_time_selection ops e2 (st\<lparr>log_times := l\<rparr>) d minutes =
                 (Inr ws, log_time (fsub u2 t2) st2')"
        using True t2 Inr g' w u2 by (simp add: generate_for_time_selection_def)
      show ?thesis
        unfolding a b st2' by (auto simp: log_time_def)
    qed
  qed
qed

lemma format_lines_relog:
  assumes "files e1 = files e2"
  shows "\<exists>l'. format_lines ops e2 d lines m epl ks (st\<lparr>log_times := l\<rparr>) av i out =
               relog l' (format_lines ops e1 d lines m epl ks st av i out)"
proof (induction ks arbitrary: st l av i out)
  case Nil
  show ?case by (auto simp: relog_def)
next
  case (Cons k ks)
  obtain cur i2 where f: "force_word av (pack_line av m i []) = (cur, i2)"
    by (cases "force_word av (pack_line av m i [])")
  show ?case
  proof (cases "cur = [] \<and> length av \<le> i2")
    case True
    obtain r st1 where g: "generate_words ops e1 st d (epl * 2) = (r, st1)"
      by (cases "generate_words ops e1 st d (epl * 2)")
    from generate_words_relog [OF assms, where st = st and l = l and ops = ops and d = d and n = "epl * 2"]
    obtain l1 where g': "generate_words ops e2 (st\<lparr>log_times := l\<rparr>) d (epl * 2) = (r, st1\<lparr>log_times := l1\<rparr>)"
      using g by auto
    show ?thesis
    proof (cases r)
      case (Inl err)
      with True f g g' show ?thesis by auto
    next
      case (Inr more)
      from Cons.IH [where st = st1 and l = l1 and av = "av @ more" and i = i2 and out = out]
      show ?thesis using True f g g' Inr by simp
    qed
  next
    case False
    show ?thesis
    proof (cases "length av \<le> i2 \<and> k < lines - 1")
      case True
      obtain r st1 where g: "generate_words ops e1 st d (epl * (lines - k)) = (r, st1)"
        by (cases "generate_words ops e1 st d (epl * (lines - k))")
      from generate_words_relog [OF assms, where st = st and l = l and ops = ops and d = d
          and n = "epl * (lines - k)"]
      obtain l1 where g': "generate_words ops e2 (st\<lparr>log_times := l\<rparr>) d (epl * (lines - k)) =
          (r, st1\<lparr>log_times := l1\<rparr>)"
        using g by auto
      show ?thesis
      proof (cases r)
        case (Inl err)
        with True False f g g' show ?thesis by auto
      next
        case (Inr more)
        from Cons.IH [where st = st1 and l = l1 and av = "av @ more" and i = i2 and out = "out @ [cur]"]
        show ?thesis using True False f g g' Inr by simp
      qed
    next
      case nt: False
      from Cons.IH [where st = st and l = l and av = av and i = i2 and out = "out @ [cur]"]
      show ?thesis using False nt f by auto
    qed
  qed
qed

lemma generate_paragraph_relog:
  assumes "files e1 = files e2"
  shows "\<exists>l'. generate_paragraph ops e2 (st\<lparr>log_times := l\<rparr>) d lines m =
               relog l' (generate_paragraph ops e1 st d lines m)"
proof (cases "lines \<le> 0 \<or> m \<le> 0")
  case True
  then show ?thesis
    by (auto simp: generate_paragraph_def relog_def)
next
  case False
  define epl where "epl = max 1 (m div 6)"
  define bw where "bw = int_of_float (fmul (float_of_int (lines * epl)) (3 / 2))"
  obtain t1 st0 where t1: "time_time e1 st = (t1, st0)"
    by (cases "time_time e1 st")
  obtain t2 st0' where t2: "time_time e2 (st\<lparr>log_times := l\<rparr>) = (t2, st0')"
    by (cases "time_time e2 (st\<lparr>log_times := l\<rparr>)")
  have st0': "st0' = st0\<lparr>log_times := l\<rparr>"
    using time_time_relog [where ?e2.0 = e2 and st = st and l = l and ?e1.0 = e1] t1 t2 by simp
  obtain r st1 where g: "generate_words ops e1 st0 d bw = (r, st1)"
    by (cases "generate_words ops e1 st0 d bw")
  from generate_words_relog [OF assms, where st = st0 and l = l and ops = ops and d = d and n = bw]
  obtain l1 where g': "generate_words ops e2 st0' d bw = (r, st1\<lparr>log_times := l1\<rparr>)"
    using g by (auto simp: st0')
  show ?thesis
  proof (cases r)
    case (Inl err)
    with False t1 t2 g g' show ?thesis
      by (auto simp: generate_paragraph_def Let_def epl_def [symmetric] bw_def [symmetric])
  next
    case (Inr av)
    obtain r2 st2 where f: "format_lines ops e1 d lines m epl [0 .. lines - 1] st1 av 0 [] = (r2, st2)"
      by (cases "format_lines ops e1 d lines m epl [0 .. lines - 1] st1 av 0 []")
    from format_lines_relog [OF assms, where st = st1 and l = l1 and ops = ops and d = d and lines = lines
        and m = m and epl = epl and ks = "[0 .. lines - 1]" and av = av and i = 0 and out = "[]"]
    obtain l2 where f': "format_lines ops e2 d lines m epl [0 .. lines - 1] (st1\<lparr>log_times := l1\<rparr>) av 0 [] =
        (r2, st2\<lparr>log_times := l2\<rparr>)"
      using f by auto
    show ?thesis
    proof (cases r2)
      case e: (Inl err)
      with False t1 t2 g g' Inr f f' show ?thesis
        by (auto simp: generate_paragraph_def Let_def epl_def [symmetric] bw_def [symmetric])
    next
      case ls: (Inr formatted)
      obtain u1 st3 where u1: "time_time e1 st2 = (u1, st3)"
        by (cases "time_time e1 st2")
      obtain u2 st3' where u2: "time_time e2 (st2\<lparr>log_times := l2\<rparr>) = (u2, st3')"
        by (cases "time_time e2 (st2\<lparr>log_times := l2\<rparr>)")
      have st3': "st3' = st3\<lparr>log_times := l2\<rparr>"
        using time_time_relog [where ?e2.0 = e2 and st = st2 and l = l2 and ?e1.0 = e1] u1 u2 by simp
      have a: "generate_paragraph ops e1 st d lines m = (Inr formatted, log_time (fsub u1 t1) st3)"
        using False t1 g Inr f ls u1
        by (simp add: generate_paragraph_def Let_def epl_def [symmetric] bw_def [symmetric])
      have b: "generate_paragraph ops e2 (st\<lparr>log_times := l\<rparr>) d lines m =
                 (Inr formatted, log_time (fsub u2 t2) st3')"
        using False t2 g' Inr f' ls u2
        by (simp add: generate_paragraph_def Let_def epl_def [symmetric] bw_def [symmetric])
      show ?thesis
        unfolding a b st3' by (auto simp: log_time_def)
    qed
  qed
qed

lemma generate_each_relog:
  assumes "files e1 = files e2"
  shows "\<exists>l'. generate_each ops e2 fa counts (st\<lparr>log_times := l\<rparr>) acc =
               relog l' (generate_each ops e1 fa counts st acc)"
proof (induction counts arbitrary: st l acc)
  case Nil
  show ?case by (auto simp: relog_def)
next
  case (Cons dc counts)
  obtain d n where dc: "dc = (d, n)" by (cases dc)
  show ?case
  proof (cases "0 < n")
    case False
    from Cons.IH [where st = st and l = l and acc = acc]
    show ?thesis using False dc by simp
  next
    case True
    obtain r st1 where g: "generate_words ops e1 st d n = (r, st1)"
      by (cases "generate_words ops e1 st d n")
    from generate_words_relog [OF assms, where st = st and l = l and ops = ops and d = d and n = n]
    obtain l1 where g': "generate_words ops e2 (st\<lparr>log_times := l\<rparr>) d n = (r, st1\<lparr>log_times := l1\<rparr>)"
      using g by auto
    show ?thesis
    proof (cases r)
      case (Inr ws)
      from Cons.IH [where st = st1 and l = l1 and acc = "acc @ ws"]
      show ?thesis using True dc g g' Inr by simp
    next
      case (Inl err)
      show ?thesis
      proof (cases "err = Diverges")
        case d: True
        with True dc g g' Inl show ?thesis by auto
      next
        case nd: False
        show ?thesis
        proof (cases "\<exists>f. fa = Some f \<and> f \<noteq> d")
          case False
          from Cons.IH [where st = st1 and l = l1 and acc = acc]
          show ?thesis using True dc g g' Inl nd False
            by (cases fa) auto
        next
          case t: True
          then obtain f where fa: "fa = Some f" "f \<noteq> d" by blast
          obtain r2 st2 where c: "generate_words ops e1 st1 f n = (r2, st2)"
            by (cases "generate_words ops e1 st1 f n")
          from generate_words_relog [OF assms, where st = st1 and l = l1 and ops = ops and d = f and n = n]
          obtain l2 where c': "generate_words ops e2 (st1\<lparr>log_times := l1\<rparr>) f n = (r2, st2\<lparr>log_times := l2\<rparr>)"
            using c by auto
          show ?thesis
          proof (cases r2)
            case w: (Inr ws)
            from Cons.IH [where st = st2 and l = l2 and acc = "acc @ ws"]
            show ?thesis using True dc g g' Inl nd fa c c' w by simp
          next
            case e: (Inl err')
            show ?thesis
            proof (cases "err' = Diverges")
              case True
              with \<open>0 < n\<close> dc g g' Inl nd fa c c' e show ?thesis by auto
            next
              case False
              from Cons.IH [where st = st2 and l = l2 and acc = acc]
              show ?thesis using \<open>0 < n\<close> dc g g' Inl nd fa c c' e False by simp
            qed
          qed
        qed
      qed
    qed
  qed
qed

lemma generate_mixed_relog:
  assumes "files e1 = files e2"
  shows "\<exists>l'. generate_mixed ops e2 (st\<lparr>log_times := l\<rparr>) weights total_count =
               relog l' (generate_mixed ops e1 st weights total_count)"
proof (cases "total_count \<le> 0 \<or> weights = []")
  case True
  then show ?thesis
    by (auto simp: generate_mixed_def relog_def)
next
  case False
  show ?thesis
  proof (cases "validate_weights weights")
    case (Inl err)
    with False show ?thesis
      by (auto simp: generate_mixed_def relog_def)
  next
    case (Inr ws)
    obtain t1 st0 where t1: "time_time e1 st = (t1, st0)"
      by (cases "time_time e1 st")
    obtain t2 st0' where t2: "time_time e2 (st\<lparr>log_times := l\<rparr>) = (t2, st0')"
      by (cases "time_time e2 (st\<lparr>log_times := l\<rparr>)")
    have st0': "st0' = st0\<lparr>log_times := l\<rparr>"
      using time_time_relog [where ?e2.0 = e2 and st = st and l = l and ?e1.0 = e1] t1 t2 by simp
    show ?thesis
    proof (cases "sum_floats (map snd ws) = 0")
      case True
      with False Inr t1 t2 st0' show ?thesis
        by (auto simp: generate_mixed_def)
    next
      case nz: False
      show ?thesis
      proof (cases "allocate_counts ws (sum_floats (map snd ws)) total_count")
        case e: (Inl err)
        with False Inr t1 t2 st0' nz show ?thesis
          by (auto simp: generate_mixed_def)
      next
        case c: (Inr counts)
        obtain r st1 where g: "generate_each ops e1 (first_key counts) counts st0 [] = (r, st1)"
          by (cases "generate_each ops e1 (first_key counts) counts st0 []")
        from generate_each_relog [OF assms, where st = st0 and l = l and ops = ops
            and fa = "first_key counts" and counts = counts and acc = "[]"]
        obtain l1 where g': "generate_each ops e2 (first_key counts) counts st0' [] = (r, st1\<lparr>log_times := l1\<rparr>)"
          using g by (auto simp: st0')
        show ?thesis
        proof (cases r)
          case ge: (Inl err)
          with False Inr t1 t2 nz c g g' show ?thesis
            by (auto simp: generate_mixed_def)
        next
          case w: (Inr all_words)
          obtain shuffled g2 where sh: "rng_shuffle ops (rng st1) all_words = (shuffled, g2)"
            by (cases "rng_shuffle ops (rng st1) all_words")
          obtain u1 st2 where u1: "time_time e1 (st1\<lparr>rng := g2\<rparr>) = (u1, st2)"
            by (cases "time_time e1 (st1\<lparr>rng := g2\<rparr>)")
          obtain u2 st2' where u2: "time_time e2 (st1\<lparr>rng := g2, log_times := l1\<rparr>) = (u2, st2')"
            by (cases "time_time e2 (st1\<lparr>rng := g2, log_times := l1\<rparr>)")
          have st2': "st2' = st2\<lparr>log_times := l1\<rparr>"
            using time_time_relog [where ?e2.0 = e2 and st = "st1\<lparr>rng := g2\<rparr>" and l = l1 and ?e1.0 = e1]
              u1 u2 by simp
          have swap: "st1\<lparr>log_times := l1, rng := g2\<rparr> = st1\<lparr>rng := g2, log_times := l1\<rparr>"
            by simp
          have a: "generate_mixed ops e1 st weights total_count = (Inr shuffled, log_time (fsub u1 t1) st2)"
            using False Inr t1 nz c g w sh u1 by (simp add: generate_mixed_def)
          have b: "generate_mixed ops e2 (st\<lparr>log_times := l\<rparr>) weights total_count =
                     (Inr shuffled, log_time (fsub u2 t2) st2')"
            using False Inr t2 nz c g' w sh u2 by (simp add: generate_mixed_def swap)
          show ?thesis
            unfolding a b st2' by (auto simp: log_time_def)
        qed
      qed
    qed
  qed
qed

lemma perform_relog:
  assumes "files e1 = files e2"
  shows "\<exists>l'. perform ops e2 (st\<lparr>log_times := l\<rparr>) c = relog l' (perform ops e1 st c)"
proof (cases c)
  case (GenerateWords d n)
  then show ?thesis
    using generate_words_relog [OF assms, where st = st and l = l] by simp
next
  case (GenerateForSession d s w)
  then show ?thesis
    using generate_for_session_relog [OF assms, where st = st and l = l] by simp
next
  case (GenerateForTimeSelection d minutes)
  then show ?thesis
    using generate_for_time_selection_relog [OF assms, where st = st and l = l] by simp
next
  case (GenerateParagraph d lines m)
  then show ?thesis
    using generate_paragraph_relog [OF assms, where st = st and l = l] by simp
next
  case (GenerateMixed weights total_count)
  then show ?thesis
    using generate_mixed_relog [OF assms, where st = st and l = l] by simp
qed

lemma outputs_relog:
  assumes "files e1 = files e2"
  shows "outputs ops e2 (st\<lparr>log_times := l\<rparr>) calls = outputs ops e1 st calls"
proof (induction calls arbitrary: st l)
  case Nil
  show ?case by simp
next
  case (Cons c calls)
  obtain r st1 where p: "perform ops e1 st c = (r, st1)"
    by (cases "perform ops e1 st c")
  from perform_relog [OF assms, where st = st and l = l and ops = ops and c = c]
  obtain l1 where p': "perform ops e2 (st\<lparr>log_times := l\<rparr>) c = (r, st1\<lparr>log_times := l1\<rparr>)"
    using p by auto
  show ?case
    using Cons.IH [where st = st1 and l = l1] p p' by simp
qed

text \<open>
  Claim C1. Two generators constructed with the same seed over identical word sources
  and driven through the same sequence of calls of \<open>generate_words\<close>,
  \<open>generate_for_session\<close>, \<open>generate_for_time_selection\<close>, \<open>generate_paragraph\<close> and
  \<open>generate_mixed\<close> return the same outputs call for call, whatever the clock returns
  in either run.
\<close>

theorem same_seed_same_outputs:
  assumes "files e1 = files e2"
  shows "outputs ops e1 (WordGenerator ops seed) calls = outputs ops e2 (WordGenerator ops seed) calls"
proof -
  have "(WordGenerator ops seed)\<lparr>log_times := []\<rparr> = WordGenerator ops seed"
    by (simp add: WordGenerator_def)
  then show ?thesis
    using outputs_relog [OF assms, where st = "WordGenerator ops seed" and l = "[]" and ops = ops and calls = calls]
    by simp
qed

theorem same_seed_same_outputs_witness:
  "files no_files = files no_files_later \<and> clock no_files 0 \<noteq> clock no_files_later 0 \<and>
   outputs first_rng no_files (WordGenerator first_rng 7)
     [GenerateWords SIMPLE 4, GenerateParagraph MEDIUM 2 20, GenerateForTimeSelection HARD 1] =
   outputs first_rng no_files_later (WordGenerator first_rng 7)
     [GenerateWords SIMPLE 4, GenerateParagraph MEDIUM 2 20, GenerateForTimeSelection HARD 1]"
proof -
  have f: "files no_files = files no_files_later"
    by (simp add: no_files_def no_files_later_def)
  show ?thesis
    using same_seed_same_outputs [OF f, of first_rng 7
        "[GenerateWords SIMPLE 4, GenerateParagraph MEDIUM 2 20, GenerateForTimeSelection HARD 1]"] f
    by (simp add: no_files_def no_files_later_def)
qed

section \<open>Score retention\<close>

















section \<open>Sessions\<close>

lemma start_session_active:
  "is_session_active eng \<Longrightarrow> start_session w eng name game_mode difficulty seconds = (False, eng)"
  by (simp add: start_session_def)

lemma start_time_based_session_active:
  "is_session_active eng \<Longrightarrow> start_time_based_session w eng name game_mode difficulty minutes = (False, eng)"
  by (simp add: start_time_based_session_def)

lemma end_session_inactive: "\<not> is_session_active eng \<Longrightarrow> end_session w eng = (None, eng)"
  by (auto simp: end_session_def is_session_active_def split: option.splits)

lemma start_session_inactive:
  assumes "\<not> is_session_active eng"
  shows "fst (start_session w eng name game_mode difficulty seconds)"
    and "is_session_active (snd (start_session w eng name game_mode difficulty seconds))"
  using assms by (simp_all add: start_session_def Let_def is_session_active_def new_session_def)

text \<open>
  Claim C4. While a session is active, \<open>start_session\<close> and \<open>start_time_based_session\<close>
  return \<open>False\<close> and leave the engine, and so its current session, as it is. With no
  active session \<open>end_session\<close> returns nothing and leaves the engine as it is, so no
  session-end callback is called; \<open>start_session\<close> then returns \<open>True\<close> and makes a session
  active, and a second start right after it returns \<open>False\<close>.
\<close>

theorem one_session_at_a_time:
  "(is_session_active eng \<longrightarrow>
      start_session w eng name game_mode difficulty seconds = (False, eng) \<and>
      start_time_based_session w eng name game_mode difficulty minutes = (False, eng)) \<and>
   (\<not> is_session_active eng \<longrightarrow>
      end_session w eng = (None, eng) \<and>
      fst (start_session w eng name game_mode difficulty seconds) \<and>
      is_session_active (snd (start_session w eng name game_mode difficulty seconds)) \<and>
      start_session w' (snd (start_session w eng name game_mode difficulty seconds))
          name' game_mode' difficulty' seconds' =
        (False, snd (start_session w eng name game_mode difficulty seconds)) \<and>
      start_time_based_session w' (snd (start_session w eng name game_mode difficulty seconds))
          name' game_mode' difficulty' minutes =
        (False, snd (start_session w eng name game_mode difficulty seconds)))"
proof (intro conjI impI)
  assume "is_session_active eng"
  then show "start_session w eng name game_mode difficulty seconds = (False, eng)"
    and "start_time_based_session w eng name game_mode difficulty minutes = (False, eng)"
    by (simp_all add: start_session_active start_time_based_session_active)
next
  assume n: "\<not> is_session_active eng"
  then show "end_session w eng = (None, eng)"
    by (rule end_session_inactive)
  show "fst (start_session w eng name game_mode difficulty seconds)"
    using n by (rule start_session_inactive(1))
  show a: "is_session_active (snd (start_session w eng name game_mode difficulty seconds))"
    using n by (rule start_session_inactive(2))
  show "start_session w' (snd (start_session w eng name game_mode difficulty seconds))
          name' game_mode' difficulty' seconds' =
        (False, snd (start_session w eng name game_mode difficulty seconds))"
    using a by (rule start_session_active)
  show "start_time_based_session w' (snd (start_session w eng name game_mode difficulty seconds))
          name' game_mode' difficulty' minutes =
        (False, snd (start_session w eng name game_mode difficulty seconds))"
    using a by (rule start_time_based_session_active)
qed

theorem one_session_at_a_time_witness:
  "end_session fixed_text_world new_engine = (None, new_engine) \<and>
   end_calls (snd (end_session fixed_text_world new_engine)) = [] \<and>
   fst (start_session fixed_text_world new_engine ''bob'' PRACTICE BEGINNER 60) \<and>
   is_session_active (snd (start_session fixed_text_world new_engine ''bob'' PRACTICE BEGINNER 60)) \<and>
   start_session fixed_text_world (snd (start_session fixed_text_world new_engine ''bob'' PRACTICE BEGINNER 60))
       ''eve'' SPEED_BURST EXPERT 30 =
     (False, snd (start_session fixed_text_world new_engine ''bob'' PRACTICE BEGINNER 60)) \<and>
   start_time_based_session fixed_text_world
       (snd (start_session fixed_text_world new_engine ''bob'' PRACTICE BEGINNER 60))
       ''eve'' SPEED_BURST EXPERT 2 =
     (False, snd (start_session fixed_text_world new_engine ''bob'' PRACTICE BEGINNER 60))"
proof -
  have n: "\<not> is_session_active new_engine"
    by (simp add: is_session_active_def new_engine_def)
  have e: "end_calls new_engine = []"
    by (simp add: new_engine_def)
  define started where "started = snd (start_session fixed_text_world new_engine ''bob'' PRACTICE BEGINNER 60)"
  have a: "is_session_active started"
    using one_session_at_a_time [of new_engine fixed_text_world "''bob''" PRACTICE BEGINNER 60 2
        fixed_text_world "''eve''" SPEED_BURST EXPERT 30] n
    by (simp add: started_def)
  show ?thesis
    using one_session_at_a_time [of new_engine fixed_text_world "''bob''" PRACTICE BEGINNER 60 2
        fixed_text_world "''eve''" SPEED_BURST EXPERT 30] n e
      one_session_at_a_time [of started fixed_text_world "''eve''" SPEED_BURST EXPERT 30 2
        fixed_text_world "''eve''" SPEED_BURST EXPERT 30] a
    unfolding started_def by simp
qed

end
